theory Spec2Isabelle
  imports Main
begin

section \<open>The declarations the call graph consumes\<close>

text \<open>
  The header \<^verbatim>\<open>include/lfort/Analysis/CallGraph.h\<close> uses the AST only through
  pointers: \<^verbatim>\<open>Decl *\<close>, \<^verbatim>\<open>SubprogramDecl *\<close>, \<^verbatim>\<open>ObjCMethodDecl *\<close>, \<^verbatim>\<open>DeclContext *\<close>
  and \<^verbatim>\<open>Stmt *\<close>. A declaration is a tree node carrying its address (its identity), its
  dynamic class, the two classifications the graph asks for, the declarations lexically
  nested in it and its body. Statements name declarations by address only.
\<close>

datatype DeclKind = SubprogramDeclKind | ObjCMethodDeclKind | BlockDeclKind | OtherDeclKind

datatype Stmt =
    NullStmt
  | CompoundStmt "Stmt list"
  | DeclStmt "nat list"
  | CallExpr nat "Stmt list"
  | BlockExpr nat

datatype Decl =
  Decl (declPtr: nat) (declKind: DeclKind) (isTemplate: bool) (isGlobal: bool)
       (decls: "Decl list") (getBody: "Stmt option")

section \<open>CallGraphNode\<close>

text \<open>
  Nodes are heap objects; a \<^verbatim>\<open>CallGraphNode *\<close> is an index into the node heap, and a
  \<^verbatim>\<open>CallRecord\<close> is a \<^verbatim>\<open>CallGraphNode *\<close>. The field \<^verbatim>\<open>FD\<close> is a \<^verbatim>\<open>Decl *\<close>: \<open>None\<close> is the
  null pointer.
\<close>

type_synonym NodePtr = nat

type_synonym CallRecord = NodePtr

record CallGraphNode =
  FD :: "nat option"
  CalledSubprograms :: "CallRecord list"

type_synonym heap = "CallGraphNode list"

text \<open>\<^verbatim>\<open>CallGraphNode(Decl *D) : FD(D) {}\<close>\<close>

definition CallGraphNode_ctor :: "nat option \<Rightarrow> CallGraphNode" where
  "CallGraphNode_ctor D = \<lparr>FD = D, CalledSubprograms = []\<rparr>"

text \<open>
  The constructor is public: \<^verbatim>\<open>new CallGraphNode(D)\<close> can be written by any client. It
  puts a fresh object at the end of the heap and yields its address.
\<close>

definition new_CallGraphNode :: "nat option \<Rightarrow> heap \<Rightarrow> NodePtr \<times> heap" where
  "new_CallGraphNode D h = (length h, h @ [CallGraphNode_ctor D])"

section \<open>CallGraph\<close>

text \<open>
  \<^verbatim>\<open>SubprogramMap\<close> is a \<^verbatim>\<open>DenseMap<const Decl *, CallGraphNode *>\<close>: an association list
  from declaration pointers (\<open>None\<close> is the null pointer) to node addresses, looked up
  with \<^const>\<open>map_of\<close>; \<^verbatim>\<open>Root\<close> is a \<^verbatim>\<open>CallGraphNode *\<close>.
\<close>

record CallGraph =
  SubprogramMap :: "(nat option \<times> NodePtr) list"
  Root :: NodePtr

type_synonym state = "CallGraph \<times> heap"

text \<open>
  \<^verbatim>\<open>void addCallee(CallGraphNode *N, CallGraph *CG) { CalledSubprograms.push_back(N); }\<close>
  The first argument is \<^verbatim>\<open>this\<close>. The method receives the graph by pointer, so the
  graph is part of what it hands back.
\<close>

definition addCallee :: "NodePtr \<Rightarrow> NodePtr \<Rightarrow> CallGraph \<Rightarrow> heap \<Rightarrow> CallGraph \<times> heap" where
  "addCallee this N CG h =
     (CG, h[this := (h ! this)\<lparr>CalledSubprograms := CalledSubprograms (h ! this) @ [N]\<rparr>])"

text \<open>\<^verbatim>\<open>Decl *getDecl() const { return FD; }\<close>\<close>

definition getDecl :: "heap \<Rightarrow> NodePtr \<Rightarrow> nat option" where
  "getDecl h this = FD (h ! this)"

text \<open>
  The sequence an iteration from \<^verbatim>\<open>begin()\<close> to \<^verbatim>\<open>end()\<close> of a node yields, and the
  two queries \<^verbatim>\<open>empty()\<close> and \<^verbatim>\<open>size()\<close> over it; \<^verbatim>\<open>size()\<close> returns an \<^verbatim>\<open>unsigned\<close>,
  of 32 bits.
\<close>

definition callees :: "heap \<Rightarrow> NodePtr \<Rightarrow> CallRecord list" where
  "callees h this = CalledSubprograms (h ! this)"

definition node_empty :: "heap \<Rightarrow> NodePtr \<Rightarrow> bool" where
  "node_empty h this = (CalledSubprograms (h ! this) = [])"

definition node_size :: "heap \<Rightarrow> NodePtr \<Rightarrow> nat" where
  "node_size h this = length (CalledSubprograms (h ! this)) mod 2 ^ 32"

text \<open>A run of \<^verbatim>\<open>addCallee\<close> calls on one node, in the order of the list.\<close>

fun addCallees :: "NodePtr \<Rightarrow> NodePtr list \<Rightarrow> CallGraph \<Rightarrow> heap \<Rightarrow> CallGraph \<times> heap" where
  "addCallees this [] CG h = (CG, h)"
| "addCallees this (N # Ns) CG h =
     (case addCallee this N CG h of (CG', h') \<Rightarrow> addCallees this Ns CG' h')"

text \<open>\<^verbatim>\<open>CallGraphNode *getRoot() const { return Root; }\<close>\<close>

definition getRoot :: "CallGraph \<Rightarrow> NodePtr" where
  "getRoot CG = Root CG"

text \<open>
  \<^verbatim>\<open>unsigned size() const { return SubprogramMap.size(); }\<close>
  The result is an \<^verbatim>\<open>unsigned\<close>, of 32 bits.
\<close>

definition CallGraph_size :: "CallGraph \<Rightarrow> nat" where
  "CallGraph_size CG = length (SubprogramMap CG) mod 2 ^ 32"

section \<open>GraphTraits\<close>

text \<open>\<^verbatim>\<open>static lfort::CallGraphNode *CGNDeref(CallRecordTy P) { return P; }\<close>\<close>

definition CGNDeref :: "CallRecord \<Rightarrow> NodePtr" where
  "CGNDeref P = P"

text \<open>
  The sequence from \<^verbatim>\<open>child_begin(N)\<close> to \<^verbatim>\<open>child_end(N)\<close>: a \<^verbatim>\<open>mapped_iterator\<close> that
  applies \<^verbatim>\<open>CGNDeref\<close> to each element of the node's own iteration.
\<close>

definition children :: "heap \<Rightarrow> NodePtr \<Rightarrow> NodePtr list" where
  "children h N = map CGNDeref (callees h N)"

text \<open>\<^verbatim>\<open>GraphTraits<CallGraphNode*>::getEntryNode(CGN)\<close> returns \<^verbatim>\<open>CGN\<close>.\<close>

definition getEntryNode_node :: "NodePtr \<Rightarrow> NodePtr" where
  "getEntryNode_node CGN = CGN"

text \<open>\<^verbatim>\<open>GraphTraits<CallGraph*>::getEntryNode(CGN)\<close> returns \<^verbatim>\<open>CGN->getRoot()\<close>.\<close>

definition getEntryNode :: "CallGraph \<Rightarrow> NodePtr" where
  "getEntryNode CGN = getRoot CGN"

text \<open>
  The specialisations for \<^verbatim>\<open>const CallGraphNode*\<close> and \<^verbatim>\<open>const CallGraph*\<close>: the children
  are the node's own iteration, without \<^verbatim>\<open>CGNDeref\<close>, and the entry node of a graph is
  again \<^verbatim>\<open>CGN->getRoot()\<close>.
\<close>

definition children_const :: "heap \<Rightarrow> NodePtr \<Rightarrow> NodePtr list" where
  "children_const h N = callees h N"

definition getEntryNode_const :: "CallGraph \<Rightarrow> NodePtr" where
  "getEntryNode_const CGN = getRoot CGN"

text \<open>\<^verbatim>\<open>static lfort::CallGraphNode &CGdereference(PairTy P) { return *(P.second); }\<close>\<close>

definition CGdereference :: "nat option \<times> NodePtr \<Rightarrow> NodePtr" where
  "CGdereference P = snd P"

text \<open>
  The sequence from \<^verbatim>\<open>nodes_begin(CG)\<close> to \<^verbatim>\<open>nodes_end(CG)\<close>: \<^verbatim>\<open>CGdereference\<close> applied
  to each entry of the iteration from \<^verbatim>\<open>CG->begin()\<close> to \<^verbatim>\<open>CG->end()\<close>, that is, of
  \<^verbatim>\<open>SubprogramMap\<close>. The header leaves the order of that iteration open ("this gives
  non-deterministic order"); the list here is one of the possible orders, and the
  properties below use its elements and its length only, never the order.
  \<^verbatim>\<open>GraphTraits<CallGraph*>::size(CG)\<close> returns \<^verbatim>\<open>CG->size()\<close>.
\<close>

definition nodes :: "CallGraph \<Rightarrow> NodePtr list" where
  "nodes CG = map CGdereference (SubprogramMap CG)"

definition GraphTraits_size :: "CallGraph \<Rightarrow> nat" where
  "GraphTraits_size CG = CallGraph_size CG"

section \<open>Construction and lookup\<close>

text \<open>
  Modelled from the spec: the constructor \<^verbatim>\<open>CallGraph::CallGraph()\<close>, which the header
  declares and does not define. The graph has a mapping from declaration identity to
  the declaration's unique node, and the root node, which is created once, never
  re-created, and has no declaration; the node count of the graph excludes the root and
  is the number of eligible declarations discovered. So the constructor allocates the
  root and starts with an empty mapping: the root is no entry of the map.
\<close>

definition CallGraph_ctor :: "heap \<Rightarrow> state" where
  "CallGraph_ctor h =
     (\<lparr>SubprogramMap = [], Root = length h\<rparr>, h @ [CallGraphNode_ctor None])"

text \<open>
  Modelled from the spec: \<^verbatim>\<open>CallGraph::getNode\<close>, declared in the header only. It
  returns the existing node for a declaration, or a "not found" indication, and never
  allocates.
\<close>

definition getNode :: "CallGraph \<Rightarrow> nat option \<Rightarrow> NodePtr option" where
  "getNode CG D = map_of (SubprogramMap CG) D"

text \<open>
  Modelled from the spec: \<^verbatim>\<open>CallGraph::allocateNewNode\<close>, declared in the header only
  ("Allocate a new node in the graph"). It constructs the node for the declaration on
  the heap and registers it in \<^verbatim>\<open>SubprogramMap\<close>, which owns all nodes.
\<close>

definition allocateNewNode :: "Decl \<Rightarrow> state \<Rightarrow> NodePtr \<times> state" where
  "allocateNewNode D s =
     (case s of (CG, h) \<Rightarrow>
        (case new_CallGraphNode (Some (declPtr D)) h of (N, h') \<Rightarrow>
           (N, (CG\<lparr>SubprogramMap := SubprogramMap CG @ [(Some (declPtr D), N)]\<rparr>, h'))))"

text \<open>
  Modelled from the spec: \<^verbatim>\<open>CallGraph::getOrInsertNode\<close>, declared in the header only.
  It returns the existing node or allocates and registers a new one.
\<close>

definition getOrInsertNode :: "Decl \<Rightarrow> state \<Rightarrow> NodePtr \<times> state" where
  "getOrInsertNode D s =
     (case getNode (fst s) (Some (declPtr D)) of
        Some N \<Rightarrow> (N, s)
      | None \<Rightarrow> allocateNewNode D s)"

section \<open>Discovery\<close>

text \<open>
  Modelled from the spec: \<^verbatim>\<open>CallGraph::includeInGraph\<close>, declared in the header only.
  A declaration is eligible when it is a concrete function, method or block, not an
  uninstantiated generic template.
\<close>

definition includeInGraph :: "Decl \<Rightarrow> bool" where
  "includeInGraph D = (declKind D \<noteq> OtherDeclKind \<and> \<not> isTemplate D)"

text \<open>
  Modelled from the spec: \<^verbatim>\<open>CallGraph::addNodeForDecl\<close>, declared in the header only.
  Steps 3 and 4 of the discovery algorithm: allocate or fetch the node for the
  declaration; if the declaration is externally reachable, add an edge from the root to
  the node. Adding the same declaration again yields the same node and no duplicate
  root edge.
\<close>

definition addNodeForDecl :: "Decl \<Rightarrow> bool \<Rightarrow> state \<Rightarrow> state" where
  "addNodeForDecl D IsGlobal s =
     (case getOrInsertNode D s of (Node, (CG, h)) \<Rightarrow>
        if IsGlobal \<and> Node \<notin> set (callees h (Root CG))
        then addCallee (Root CG) Node CG h
        else (CG, h))"

text \<open>
  Modelled from the spec: \<^verbatim>\<open>CallGraph::addNodesForBlocks\<close>, declared in the header only.
  Step 2 of the discovery algorithm: the callable blocks declared in an eligible
  declaration are discovered, and recursively those declared in such a block, inner
  blocks before the block that encloses them. A nested block owned by an externally
  reachable enclosing declaration is itself externally reachable; \<open>encl\<close> carries that
  classification down the nesting.
\<close>

fun addNodeForBlock :: "bool \<Rightarrow> Decl \<Rightarrow> state \<Rightarrow> state"
  and addNodesForBlocksIn :: "bool \<Rightarrow> Decl list \<Rightarrow> state \<Rightarrow> state" where
  "addNodeForBlock encl (Decl p k t g ds b) s =
     (if k = BlockDeclKind \<and> includeInGraph (Decl p k t g ds b)
      then addNodeForDecl (Decl p k t g ds b) encl (addNodesForBlocksIn encl ds s)
      else s)"
| "addNodesForBlocksIn encl [] s = s"
| "addNodesForBlocksIn encl (d # ds) s = addNodesForBlocksIn encl ds (addNodeForBlock encl d s)"

text \<open>
  Whether a declaration that encloses blocks is externally reachable by itself: what
  \<^verbatim>\<open>VisitSubprogramDecl\<close> and \<^verbatim>\<open>VisitObjCMethodDecl\<close> pass to \<^verbatim>\<open>addNodeForDecl\<close> for it.
\<close>

definition hasExternalLinkage :: "Decl \<Rightarrow> bool" where
  "hasExternalLinkage D =
     (case declKind D of
        SubprogramDeclKind \<Rightarrow> isGlobal D
      | ObjCMethodDeclKind \<Rightarrow> True
      | BlockDeclKind \<Rightarrow> False
      | OtherDeclKind \<Rightarrow> False)"

definition addNodesForBlocks :: "Decl \<Rightarrow> state \<Rightarrow> state" where
  "addNodesForBlocks D s = addNodesForBlocksIn (hasExternalLinkage D) (decls D) s"

text \<open>
  \<^verbatim>\<open>bool VisitSubprogramDecl(SubprogramDecl *FD)\<close>, from the header: when the
  declaration is eligible, add the blocks declared inside it, then its own node with
  \<^verbatim>\<open>FD->isGlobal()\<close>; return true in every case.
\<close>

definition VisitSubprogramDecl :: "Decl \<Rightarrow> state \<Rightarrow> bool \<times> state" where
  "VisitSubprogramDecl SD s =
     (if includeInGraph SD
      then (True, addNodeForDecl SD (isGlobal SD) (addNodesForBlocks SD s))
      else (True, s))"

text \<open>\<^verbatim>\<open>bool VisitObjCMethodDecl(ObjCMethodDecl *MD)\<close>, from the header.\<close>

definition VisitObjCMethodDecl :: "Decl \<Rightarrow> state \<Rightarrow> bool \<times> state" where
  "VisitObjCMethodDecl MD s =
     (if includeInGraph MD
      then (True, addNodeForDecl MD True (addNodesForBlocks MD s))
      else (True, s))"

text \<open>\<^verbatim>\<open>bool TraverseStmt(Stmt *S) { return true; }\<close>\<close>

definition TraverseStmt :: "Stmt \<Rightarrow> state \<Rightarrow> bool \<times> state" where
  "TraverseStmt S s = (True, s)"

text \<open>
  Modelled from the spec: the walk \<^verbatim>\<open>TraverseDecl\<close> that \<^verbatim>\<open>CallGraph\<close> inherits from
  \<^verbatim>\<open>RecursiveASTVisitor<CallGraph>\<close>, a class that the header includes and does not
  define. Discovery is a single top-down pass over the declarations in lexical order: a
  declaration is visited by the \<^verbatim>\<open>Visit\<close> method of its class, then the declarations
  nested in it are walked in order, then its body is handed to \<^verbatim>\<open>TraverseStmt\<close>. A
  \<^verbatim>\<open>Visit\<close> or \<^verbatim>\<open>Traverse\<close> method that returns false stops the walk.
\<close>

definition WalkUpFromDecl :: "Decl \<Rightarrow> state \<Rightarrow> bool \<times> state" where
  "WalkUpFromDecl D s =
     (case declKind D of
        SubprogramDeclKind \<Rightarrow> VisitSubprogramDecl D s
      | ObjCMethodDeclKind \<Rightarrow> VisitObjCMethodDecl D s
      | BlockDeclKind \<Rightarrow> (True, s)
      | OtherDeclKind \<Rightarrow> (True, s))"

fun TraverseDecl :: "Decl \<Rightarrow> state \<Rightarrow> bool \<times> state"
  and TraverseDeclContextHelper :: "Decl list \<Rightarrow> state \<Rightarrow> bool \<times> state" where
  "TraverseDecl (Decl p k t g ds b) s =
     (case WalkUpFromDecl (Decl p k t g ds b) s of
        (False, s1) \<Rightarrow> (False, s1)
      | (True, s1) \<Rightarrow>
          (case TraverseDeclContextHelper ds s1 of
             (False, s2) \<Rightarrow> (False, s2)
           | (True, s2) \<Rightarrow>
               (case b of None \<Rightarrow> (True, s2) | Some S \<Rightarrow> TraverseStmt S s2)))"
| "TraverseDeclContextHelper [] s = (True, s)"
| "TraverseDeclContextHelper (d # ds) s =
     (case TraverseDecl d s of
        (False, s1) \<Rightarrow> (False, s1)
      | (True, s1) \<Rightarrow> TraverseDeclContextHelper ds s1)"

text \<open>\<^verbatim>\<open>void addToCallGraph(Decl *D) { TraverseDecl(D); }\<close>\<close>

definition addToCallGraph :: "Decl \<Rightarrow> state \<Rightarrow> state" where
  "addToCallGraph D s = snd (TraverseDecl D s)"

section \<open>Notions the properties are stated with\<close>

text \<open>Every declaration of a unit: the declaration itself and all that nest in it.\<close>

fun subdecls :: "Decl \<Rightarrow> Decl list"
  and subdeclsL :: "Decl list \<Rightarrow> Decl list" where
  "subdecls (Decl p k t g ds b) = Decl p k t g ds b # subdeclsL ds"
| "subdeclsL [] = []"
| "subdeclsL (d # ds) = subdecls d @ subdeclsL ds"

text \<open>
  External reachability of a declaration, given that of the declaration enclosing it: a
  subprogram is externally reachable when it has external linkage, a method always, a
  nested block when its enclosing declaration is.
\<close>

definition externallyReachable :: "bool \<Rightarrow> Decl \<Rightarrow> bool" where
  "externallyReachable encl D =
     (case declKind D of
        SubprogramDeclKind \<Rightarrow> isGlobal D
      | ObjCMethodDeclKind \<Rightarrow> True
      | BlockDeclKind \<Rightarrow> encl
      | OtherDeclKind \<Rightarrow> False)"

text \<open>Every declaration of a unit, paired with its external reachability.\<close>

fun reachability :: "bool \<Rightarrow> Decl \<Rightarrow> (Decl \<times> bool) list"
  and reachabilityL :: "bool \<Rightarrow> Decl list \<Rightarrow> (Decl \<times> bool) list" where
  "reachability encl (Decl p k t g ds b) =
     (Decl p k t g ds b, externallyReachable encl (Decl p k t g ds b))
       # reachabilityL (externallyReachable encl (Decl p k t g ds b)) ds"
| "reachabilityL encl [] = []"
| "reachabilityL encl (d # ds) = reachability encl d @ reachabilityL encl ds"

text \<open>In a well-formed unit every declaration has an address of its own.\<close>

definition wellFormedUnit :: "Decl \<Rightarrow> bool" where
  "wellFormedUnit U = distinct (map declPtr (subdecls U))"

text \<open>The nodes a graph holds: the root and the nodes of its map.\<close>

definition graphNodes :: "CallGraph \<Rightarrow> NodePtr set" where
  "graphNodes CG = insert (Root CG) (set (nodes CG))"

text \<open>
  The map counts its entries in an \<^verbatim>\<open>unsigned\<close>: a map that exists has fewer than
  \<open>2 ^ 32\<close> entries.
\<close>

definition representable :: "CallGraph \<Rightarrow> bool" where
  "representable CG = (length (SubprogramMap CG) < 2 ^ 32)"

text \<open>A declaration with the statements of every body removed.\<close>

fun stripBodies :: "Decl \<Rightarrow> Decl"
  and stripBodiesL :: "Decl list \<Rightarrow> Decl list" where
  "stripBodies (Decl p k t g ds b) =
     Decl p k t g (stripBodiesL ds) (case b of None \<Rightarrow> None | Some S \<Rightarrow> Some NullStmt)"
| "stripBodiesL [] = []"
| "stripBodiesL (d # ds) = stripBodies d # stripBodiesL ds"

text \<open>Whether a node is the root of a graph or one of the nodes of its map.\<close>

definition registered :: "CallGraph \<Rightarrow> NodePtr \<Rightarrow> bool" where
  "registered CG N = (N = Root CG \<or> N \<in> set (map snd (SubprogramMap CG)))"

text \<open>Whether the root of a graph and the nodes of its map are allocated on a heap.\<close>

definition nodesAllocated :: "CallGraph \<Rightarrow> heap \<Rightarrow> bool" where
  "nodesAllocated CG h =
     (Root CG < length h \<and> list_all (\<lambda>N. N < length h) (map snd (SubprogramMap CG)))"

text \<open>
  The unit of the end-to-end scenario: an externally visible subprogram \<open>f\<close> with a
  nested block \<open>b\<close>, a subprogram \<open>g\<close> without external linkage, a template \<open>t\<close> and a
  method \<open>m\<close>.
\<close>

definition exampleB :: Decl where
  "exampleB = Decl 3 BlockDeclKind False False [] (Some NullStmt)"

definition exampleF :: Decl where
  "exampleF = Decl 1 SubprogramDeclKind False True [exampleB] (Some (CallExpr 2 []))"

definition exampleG :: Decl where
  "exampleG = Decl 2 SubprogramDeclKind False False [] (Some NullStmt)"

definition exampleT :: Decl where
  "exampleT = Decl 4 SubprogramDeclKind True True [] (Some NullStmt)"

definition exampleM :: Decl where
  "exampleM = Decl 5 ObjCMethodDeclKind False False [] (Some NullStmt)"

definition exampleUnit :: Decl where
  "exampleUnit =
     Decl 0 OtherDeclKind False False [exampleF, exampleG, exampleT, exampleM] None"

section \<open>Notions the proofs use\<close>

text \<open>
  The shape of a graph that construction and discovery keep: the root is allocated, no
  declaration and no node occurs twice in the map, the nodes of the map are allocated
  and differ from the root, and the root has edges to nodes of the map only.
\<close>

definition graphInv :: "state \<Rightarrow> bool" where
  "graphInv s =
     (Root (fst s) < length (snd s)
      \<and> distinct (map fst (SubprogramMap (fst s)))
      \<and> distinct (map snd (SubprogramMap (fst s)))
      \<and> (\<forall>N \<in> set (map snd (SubprogramMap (fst s))). N < length (snd s) \<and> N \<noteq> Root (fst s))
      \<and> set (callees (snd s) (Root (fst s))) \<subseteq> set (map snd (SubprogramMap (fst s))))"

text \<open>The declarations that have a node, and those whose node the root has an edge to.\<close>

definition withNode :: "state \<Rightarrow> nat set" where
  "withNode s = {p. Some p \<in> set (map fst (SubprogramMap (fst s)))}"

definition withRootEdge :: "state \<Rightarrow> nat set" where
  "withRootEdge s =
     {p. \<exists>N. getNode (fst s) (Some p) = Some N \<and> N \<in> set (callees (snd s) (Root (fst s)))}"

text \<open>
  The requests for a node that a walk makes, each with the declaration's address and the
  flag passed to \<^verbatim>\<open>addNodeForDecl\<close>, in the order of the walk.
\<close>

fun blockCalls :: "bool \<Rightarrow> Decl \<Rightarrow> (nat \<times> bool) list"
  and blockCallsL :: "bool \<Rightarrow> Decl list \<Rightarrow> (nat \<times> bool) list" where
  "blockCalls encl (Decl p k t g ds b) =
     (if k = BlockDeclKind \<and> includeInGraph (Decl p k t g ds b)
      then blockCallsL encl ds @ [(p, encl)]
      else [])"
| "blockCallsL encl [] = []"
| "blockCallsL encl (d # ds) = blockCalls encl d @ blockCallsL encl ds"

definition visitCalls :: "Decl \<Rightarrow> (nat \<times> bool) list" where
  "visitCalls D =
     (if (declKind D = SubprogramDeclKind \<or> declKind D = ObjCMethodDeclKind) \<and> includeInGraph D
      then blockCallsL (hasExternalLinkage D) (decls D) @ [(declPtr D, hasExternalLinkage D)]
      else [])"

fun travCalls :: "Decl \<Rightarrow> (nat \<times> bool) list"
  and travCallsL :: "Decl list \<Rightarrow> (nat \<times> bool) list" where
  "travCalls (Decl p k t g ds b) = visitCalls (Decl p k t g ds b) @ travCallsL ds"
| "travCallsL [] = []"
| "travCallsL (d # ds) = travCalls d @ travCallsL ds"

text \<open>
  What a run of such requests does to a graph: the shape is kept, the root stays, each
  requested declaration has a node afterwards, each one requested with a true flag has a
  root edge afterwards, and as many nodes are allocated as the map gains entries.
\<close>

definition effect :: "state \<Rightarrow> (nat \<times> bool) list \<Rightarrow> state \<Rightarrow> bool" where
  "effect s cs s' =
     (graphInv s'
      \<and> Root (fst s') = Root (fst s)
      \<and> withNode s' = withNode s \<union> fst ` set cs
      \<and> withRootEdge s' = withRootEdge s \<union> {p. (p, True) \<in> set cs}
      \<and> length (snd s') + length (SubprogramMap (fst s))
          = length (snd s) + length (SubprogramMap (fst s')))"

section \<open>Edge storage\<close>

lemma addCallee_callees:
  "this < length h \<Longrightarrow> callees (snd (addCallee this N CG h)) this = callees h this @ [N]"
  by (simp add: addCallee_def callees_def)

lemma addCallee_length: "length (snd (addCallee this N CG h)) = length h"
  by (simp add: addCallee_def)

lemma addCallee_fst: "fst (addCallee this N CG h) = CG"
  by (simp add: addCallee_def)

lemma addCallees_fst: "fst (addCallees this Ns CG h) = CG"
  by (induction Ns arbitrary: h) (simp_all add: addCallee_def)

lemma addCallees_length: "length (snd (addCallees this Ns CG h)) = length h"
  by (induction Ns arbitrary: h) (simp_all add: addCallee_def)

lemma addCallees_callees:
  "this < length h \<Longrightarrow> callees (snd (addCallees this Ns CG h)) this = callees h this @ Ns"
  by (induction Ns arbitrary: h) (simp_all add: addCallee_def callees_def)

text \<open>
  C4. Iterating a node's callee list yields the targets in the order of the
  \<^verbatim>\<open>addCallee\<close> calls: after a run of calls with the targets \<open>Ns\<close> the iteration is the
  old sequence followed by \<open>Ns\<close>. Nothing is deduplicated: two calls with the same
  target leave two more entries for that target.
\<close>

theorem addCallee_insertion_order:
  "this < length h \<Longrightarrow>
     callees (snd (addCallees this Ns CG h)) this = callees h this @ Ns
     \<and> callees (snd (addCallee this N CG (snd (addCallee this N CG h)))) this
         = callees h this @ [N, N]
     \<and> count_list (callees (snd (addCallee this N CG (snd (addCallee this N CG h)))) this) N
         = count_list (callees h this) N + 2"
proof -
  assume valid: "this < length h"
  have a: "callees (snd (addCallees this Ns CG h)) this = callees h this @ Ns"
    using valid by (rule addCallees_callees)
  have "this < length (snd (addCallee this N CG h))"
    using valid by (simp add: addCallee_length)
  then have "callees (snd (addCallee this N CG (snd (addCallee this N CG h)))) this
               = callees (snd (addCallee this N CG h)) this @ [N]"
    by (rule addCallee_callees)
  then have b: "callees (snd (addCallee this N CG (snd (addCallee this N CG h)))) this
               = callees h this @ [N, N]"
    using valid by (simp add: addCallee_callees)
  have c: "count_list (callees h this @ [N, N]) N = count_list (callees h this) N + 2"
    by simp
  show ?thesis using a b c by simp
qed

theorem addCallee_insertion_order_witness:
  "(0::nat) < length [CallGraphNode_ctor None, CallGraphNode_ctor (Some 1), CallGraphNode_ctor (Some 2)]
   \<and> callees (snd (addCallees 0 [2, 1, 2] \<lparr>SubprogramMap = [(None, 0), (Some 1, 1), (Some 2, 2)], Root = 0\<rparr>
        [CallGraphNode_ctor None, CallGraphNode_ctor (Some 1), CallGraphNode_ctor (Some 2)])) 0
      = [2, 1, 2]"
  using addCallee_insertion_order [of 0
      "[CallGraphNode_ctor None, CallGraphNode_ctor (Some 1), CallGraphNode_ctor (Some 2)]"
      "[2, 1, 2]" "\<lparr>SubprogramMap = [(None, 0), (Some 1, 1), (Some 2, 2)], Root = 0\<rparr>"]
  by (simp add: callees_def CallGraphNode_ctor_def)

text \<open>
  C5. Through the generic adapter the entry node of a whole graph is the graph's root,
  and the children of a node are the targets of the node's callee edges, each
  dereferenced, in the order of the callee list, one child per edge.
\<close>

theorem graphTraits_entry_and_children:
  "getEntryNode CG = Root CG
   \<and> getEntryNode_const CG = Root CG
   \<and> children h N = CalledSubprograms (h ! N)
   \<and> children_const h N = CalledSubprograms (h ! N)
   \<and> children h N = callees h N"
proof -
  have "map CGNDeref (callees h N) = callees h N"
    by (rule map_idI) (simp add: CGNDeref_def)
  then show ?thesis
    by (simp add: getEntryNode_def getEntryNode_const_def getRoot_def children_def
        children_const_def callees_def)
qed

text \<open>
  C8. \<^verbatim>\<open>addCallee\<close> called on a node with the node's own address as the target appends
  the node to its own callee list: the node becomes a child of itself, a cycle through
  one node. Nothing is rejected and no object is allocated.
\<close>

theorem addCallee_self_loop:
  "this < length h \<Longrightarrow>
     callees (snd (addCallee this this CG h)) this = callees h this @ [this]
     \<and> this \<in> set (children (snd (addCallee this this CG h)) this)
     \<and> length (snd (addCallee this this CG h)) = length h"
proof -
  assume valid: "this < length h"
  then have own: "callees (snd (addCallee this this CG h)) this = callees h this @ [this]"
    by (rule addCallee_callees)
  then have "this \<in> set (callees (snd (addCallee this this CG h)) this)" by simp
  then have "this \<in> set (children (snd (addCallee this this CG h)) this)"
    by (simp add: children_def CGNDeref_def)
  with own show ?thesis by (simp add: addCallee_length)
qed

theorem addCallee_self_loop_witness:
  "(1::nat) < length [CallGraphNode_ctor None, CallGraphNode_ctor (Some 5)]
   \<and> children (snd (addCallee 1 1 \<lparr>SubprogramMap = [(None, 0), (Some 5, 1)], Root = 0\<rparr>
        [CallGraphNode_ctor None, CallGraphNode_ctor (Some 5)])) 1 = [1]"
  using addCallee_self_loop [of 1 "[CallGraphNode_ctor None, CallGraphNode_ctor (Some 5)]"
      "\<lparr>SubprogramMap = [(None, 0), (Some 5, 1)], Root = 0\<rparr>"]
  by (simp add: children_def callees_def CGNDeref_def CallGraphNode_ctor_def)

text \<open>
  C10. \<^verbatim>\<open>addCallee\<close> changes the calling node's callee list only: the graph passed in is
  handed back as it was, with its map and its root; the heap that results is the same
  whichever graph is passed; the calling node keeps its declaration; every other node is
  as before.
\<close>

theorem addCallee_frame:
  "this < length h \<Longrightarrow>
     fst (addCallee this N CG h) = CG
     \<and> SubprogramMap (fst (addCallee this N CG h)) = SubprogramMap CG
     \<and> Root (fst (addCallee this N CG h)) = Root CG
     \<and> snd (addCallee this N CG h) = snd (addCallee this N CG' h)
     \<and> callees (snd (addCallee this N CG h)) this = callees h this @ [N]
     \<and> getDecl (snd (addCallee this N CG h)) this = getDecl h this
     \<and> length (snd (addCallee this N CG h)) = length h
     \<and> (\<forall>q. q \<noteq> this \<longrightarrow> snd (addCallee this N CG h) ! q = h ! q)"
proof -
  assume valid: "this < length h"
  have graph: "fst (addCallee this N CG h) = CG" by (rule addCallee_fst)
  have same: "snd (addCallee this N CG h) = snd (addCallee this N CG' h)"
    by (simp add: addCallee_def)
  have edges: "callees (snd (addCallee this N CG h)) this = callees h this @ [N]"
    using valid by (rule addCallee_callees)
  have decl: "getDecl (snd (addCallee this N CG h)) this = getDecl h this"
    using valid by (simp add: addCallee_def getDecl_def)
  have others: "\<forall>q. q \<noteq> this \<longrightarrow> snd (addCallee this N CG h) ! q = h ! q"
    by (simp add: addCallee_def)
  from graph same edges decl others show ?thesis by (simp add: addCallee_length)
qed

theorem addCallee_frame_witness:
  "(1::nat) < length [CallGraphNode_ctor None, CallGraphNode_ctor (Some 5)]
   \<and> addCallee 1 0 \<lparr>SubprogramMap = [(None, 0), (Some 5, 1)], Root = 0\<rparr>
        [CallGraphNode_ctor None, CallGraphNode_ctor (Some 5)]
      = (\<lparr>SubprogramMap = [(None, 0), (Some 5, 1)], Root = 0\<rparr>,
         [CallGraphNode_ctor None, \<lparr>FD = Some 5, CalledSubprograms = [0]\<rparr>])
   \<and> snd (addCallee 1 0 \<lparr>SubprogramMap = [(None, 7)], Root = 7\<rparr>
        [CallGraphNode_ctor None, CallGraphNode_ctor (Some 5)])
      = [CallGraphNode_ctor None, \<lparr>FD = Some 5, CalledSubprograms = [0]\<rparr>]"
  using addCallee_frame [of 1 "[CallGraphNode_ctor None, CallGraphNode_ctor (Some 5)]" 0
      "\<lparr>SubprogramMap = [(None, 0), (Some 5, 1)], Root = 0\<rparr>" "\<lparr>SubprogramMap = [(None, 7)], Root = 7\<rparr>"]
  by (simp add: addCallee_def CallGraphNode_ctor_def)


section \<open>Discovery keeps the shape of the graph\<close>

lemma getOrInsertNode_found:
  "getNode (fst s) (Some (declPtr D)) = Some N \<Longrightarrow> getOrInsertNode D s = (N, s)"
  by (simp add: getOrInsertNode_def)

lemma getOrInsertNode_fresh:
  "getNode CG (Some (declPtr D)) = None \<Longrightarrow>
   getOrInsertNode D (CG, h) =
     (length h, (CG\<lparr>SubprogramMap := SubprogramMap CG @ [(Some (declPtr D), length h)]\<rparr>,
                 h @ [CallGraphNode_ctor (Some (declPtr D))]))"
  by (simp add: getOrInsertNode_def allocateNewNode_def new_CallGraphNode_def)

lemma effect_refl: "graphInv s \<Longrightarrow> effect s [] s"
  by (simp add: effect_def)

lemma effect_trans:
  "effect s cs s1 \<Longrightarrow> effect s1 cs' s2 \<Longrightarrow> effect s (cs @ cs') s2"
  unfolding effect_def by (auto simp: image_Un)

lemma effect_inv: "effect s cs s' \<Longrightarrow> graphInv s'"
  by (simp add: effect_def)

lemma effect_cong:
  "fst ` set cs = fst ` set cs' \<Longrightarrow> {p. (p, True) \<in> set cs} = {p. (p, True) \<in> set cs'}
   \<Longrightarrow> effect s cs s' \<Longrightarrow> effect s cs' s'"
  by (simp add: effect_def)

lemma getNode_Some_iff:
  "distinct (map fst (SubprogramMap CG)) \<Longrightarrow>
   getNode CG k = Some N \<longleftrightarrow> (k, N) \<in> set (SubprogramMap CG)"
  by (simp add: getNode_def)

lemma getNode_None_iff: "getNode CG k = None \<longleftrightarrow> k \<notin> fst ` set (SubprogramMap CG)"
  by (simp add: getNode_def map_of_eq_None_iff)

lemma getNode_append:
  "getNode CG k = None \<Longrightarrow>
   getNode (CG\<lparr>SubprogramMap := SubprogramMap CG @ [(k, N)]\<rparr>) q
     = (if q = k then Some N else getNode CG q)"
  by (auto simp: getNode_def map_add_def split: option.splits)

lemma withNode_iff: "p \<in> withNode s \<longleftrightarrow> getNode (fst s) (Some p) \<noteq> None"
  by (simp add: withNode_def getNode_None_iff)

lemma callees_append_heap:
  "R < length h \<Longrightarrow> callees (h @ xs) R = callees h R"
  by (simp add: callees_def nth_append)

lemma graphInv_Root: "graphInv (CG, h) \<Longrightarrow> Root CG < length h"
  by (simp add: graphInv_def)

lemma getOrInsertNode_effect:
  assumes inv: "graphInv s" and run: "getOrInsertNode D s = (N, s1)"
  shows "effect s [(declPtr D, False)] s1 \<and> getNode (fst s1) (Some (declPtr D)) = Some N"
proof (cases "getNode (fst s) (Some (declPtr D))")
  case (Some M)
  with run have eq: "N = M" "s1 = s" by (simp_all add: getOrInsertNode_def)
  from Some have "declPtr D \<in> withNode s" by (simp add: withNode_iff)
  then have "withNode s = withNode s \<union> {declPtr D}" by auto
  with inv Some eq show ?thesis by (simp add: effect_def)
next
  case None
  obtain CG h where s: "s = (CG, h)" by (cases s)
  let ?p = "declPtr D"
  let ?CG' = "CG\<lparr>SubprogramMap := SubprogramMap CG @ [(Some ?p, length h)]\<rparr>"
  from None s have none: "getNode CG (Some ?p) = None" by simp
  from none s run have N: "N = length h"
    and s1: "s1 = (?CG', h @ [CallGraphNode_ctor (Some ?p)])"
    by (auto simp add: getOrInsertNode_fresh)
  from none have fresh: "Some ?p \<notin> fst ` set (SubprogramMap CG)"
    by (simp add: getNode_None_iff)
  from inv s have R: "Root CG < length h" by (simp add: graphInv_Root)
  from inv s have dk: "distinct (map fst (SubprogramMap CG))"
    and dv: "distinct (map snd (SubprogramMap CG))"
    and bd: "\<forall>M \<in> set (map snd (SubprogramMap CG)). M < length h \<and> M \<noteq> Root CG"
    and ed: "set (callees h (Root CG)) \<subseteq> set (map snd (SubprogramMap CG))"
    by (simp_all add: graphInv_def)
  from bd have nv: "length h \<notin> snd ` set (SubprogramMap CG)" by auto
  note look = getNode_append [OF none, of "length h"]
  have inv1: "graphInv s1"
    unfolding graphInv_def s1 using R dk dv bd ed fresh nv
    by (auto simp: callees_append_heap)
  have wn: "withNode s1 = withNode s \<union> {?p}"
    by (auto simp: withNode_iff s s1 look split: if_splits)
  have "length h \<notin> set (callees h (Root CG))" using ed nv by auto
  then have we: "withRootEdge s1 = withRootEdge s"
    using R none by (auto simp: withRootEdge_def s look s1 callees_append_heap split: if_splits)
  show ?thesis
    using inv1 wn we look N by (simp add: effect_def s s1)
qed

lemma addRootEdge_effect:
  assumes inv: "graphInv (CG, h)" and look: "getNode CG (Some p) = Some N"
    and new: "N \<notin> set (callees h (Root CG))"
  shows "effect (CG, h) [(p, True)] (addCallee (Root CG) N CG h)"
proof -
  define h' where "h' = snd (addCallee (Root CG) N CG h)"
  from inv have R: "Root CG < length h" by (rule graphInv_Root)
  from inv have dk: "distinct (map fst (SubprogramMap CG))"
    and dv: "distinct (map snd (SubprogramMap CG))"
    and bd: "\<forall>M \<in> set (map snd (SubprogramMap CG)). M < length h \<and> M \<noteq> Root CG"
    and ed: "set (callees h (Root CG)) \<subseteq> set (map snd (SubprogramMap CG))"
    by (simp_all add: graphInv_def)
  have s': "addCallee (Root CG) N CG h = (CG, h')" by (simp add: h'_def addCallee_def)
  have cs: "callees h' (Root CG) = callees h (Root CG) @ [N]"
    unfolding h'_def using R by (rule addCallee_callees)
  have len: "length h' = length h" unfolding h'_def by (rule addCallee_length)
  from look dk have mem: "(Some p, N) \<in> set (SubprogramMap CG)" by (simp add: getNode_Some_iff)
  then have Nv: "N \<in> snd ` set (SubprogramMap CG)" by force
  have inv': "graphInv (CG, h')"
    unfolding graphInv_def using R dk dv bd ed Nv by (simp add: cs len)
  have uniq: "\<And>q. getNode CG (Some q) = Some N \<longleftrightarrow> q = p"
  proof
    fix q assume "getNode CG (Some q) = Some N"
    with dk have "(Some q, N) \<in> set (SubprogramMap CG)" by (simp add: getNode_Some_iff)
    moreover from dv have "inj_on snd (set (SubprogramMap CG))" by (simp add: distinct_map)
    ultimately have "(Some q, N) = (Some p, N)" using mem by (intro inj_onD [of snd]) simp_all
    then show "q = p" by simp
  next
    fix q assume "q = p" with look show "getNode CG (Some q) = Some N" by simp
  qed
  have we: "withRootEdge (CG, h') = withRootEdge (CG, h) \<union> {p}"
    using uniq by (auto simp: withRootEdge_def cs)
  have "p \<in> withNode (CG, h)" using look by (simp add: withNode_iff)
  then have wn: "withNode (CG, h') = withNode (CG, h) \<union> {p}" by (auto simp: withNode_def)
  show ?thesis
    unfolding s' using inv' we wn len by (simp add: effect_def)
qed

lemma keptRootEdge_effect:
  assumes inv: "graphInv (CG, h)" and look: "getNode CG (Some p) = Some N"
    and old: "r \<longrightarrow> N \<in> set (callees h (Root CG))"
  shows "effect (CG, h) [(p, r)] (CG, h)"
proof -
  from look have "p \<in> withNode (CG, h)" by (simp add: withNode_iff)
  then have wn: "withNode (CG, h) = withNode (CG, h) \<union> {p}" by auto
  have we: "withRootEdge (CG, h) = withRootEdge (CG, h) \<union> {q. q = p \<and> r}"
    using look old by (auto simp: withRootEdge_def)
  show ?thesis using inv wn we by (simp add: effect_def)
qed

lemma addNodeForDecl_effect:
  assumes inv: "graphInv s"
  shows "effect s [(declPtr D, r)] (addNodeForDecl D r s)"
proof -
  obtain N CG h where run: "getOrInsertNode D s = (N, (CG, h))"
    by (metis surj_pair)
  from getOrInsertNode_effect [OF inv run]
  have e1: "effect s [(declPtr D, False)] (CG, h)"
    and look: "getNode CG (Some (declPtr D)) = Some N"
    by simp_all
  from e1 have inv1: "graphInv (CG, h)" by (rule effect_inv)
  have e2: "effect (CG, h) [(declPtr D, r)] (addNodeForDecl D r s)"
  proof (cases "r \<and> N \<notin> set (callees h (Root CG))")
    case True
    then have "addNodeForDecl D r s = addCallee (Root CG) N CG h"
      by (simp add: addNodeForDecl_def run)
    with addRootEdge_effect [OF inv1 look] True show ?thesis by simp
  next
    case False
    then have "addNodeForDecl D r s = (CG, h)"
      by (auto simp add: addNodeForDecl_def run)
    with keptRootEdge_effect [OF inv1 look, of r] False show ?thesis by auto
  qed
  from effect_trans [OF e1 e2] show ?thesis
    by (rule effect_cong [rotated 2]) auto
qed

lemma CallGraph_ctor_inv: "graphInv (CallGraph_ctor h0)"
  by (simp add: graphInv_def CallGraph_ctor_def callees_def CallGraphNode_ctor_def)

section \<open>The walk over the declarations\<close>

lemma blocks_effect:
  "graphInv s \<Longrightarrow> effect s (blockCalls encl d) (addNodeForBlock encl d s)"
  "graphInv s \<Longrightarrow> effect s (blockCallsL encl ds) (addNodesForBlocksIn encl ds s)"
proof (induction encl d s and encl ds s rule: addNodeForBlock_addNodesForBlocksIn.induct)
  case (1 encl p k t g ds b s)
  show ?case
  proof (cases "k = BlockDeclKind \<and> includeInGraph (Decl p k t g ds b)")
    case True
    from "1.IH" [OF True "1.prems"]
    have e1: "effect s (blockCallsL encl ds) (addNodesForBlocksIn encl ds s)" .
    from addNodeForDecl_effect [OF effect_inv [OF e1], of "Decl p k t g ds b" encl]
    have e2: "effect (addNodesForBlocksIn encl ds s) [(p, encl)]
                (addNodeForDecl (Decl p k t g ds b) encl (addNodesForBlocksIn encl ds s))"
      by simp
    from effect_trans [OF e1 e2] True show ?thesis by auto
  next
    case False
    with "1.prems" show ?thesis by (auto simp: effect_refl)
  qed
next
  case (2 encl s)
  then show ?case by (simp add: effect_refl)
next
  case (3 encl d ds s)
  from "3.IH"(1) [OF "3.prems"]
  have e1: "effect s (blockCalls encl d) (addNodeForBlock encl d s)" .
  from "3.IH"(2) [OF effect_inv [OF e1]]
  have e2: "effect (addNodeForBlock encl d s) (blockCallsL encl ds)
              (addNodesForBlocksIn encl ds (addNodeForBlock encl d s))" .
  from effect_trans [OF e1 e2] show ?case by simp
qed

lemma visit_effect:
  assumes inv: "graphInv s"
  shows "effect s (visitCalls D) (snd (WalkUpFromDecl D s))"
proof (cases "(declKind D = SubprogramDeclKind \<or> declKind D = ObjCMethodDeclKind) \<and> includeInGraph D")
  case True
  let ?s1 = "addNodesForBlocks D s"
  have e1: "effect s (blockCallsL (hasExternalLinkage D) (decls D)) ?s1"
    unfolding addNodesForBlocks_def using inv by (rule blocks_effect(2))
  have e2: "effect ?s1 [(declPtr D, hasExternalLinkage D)]
              (addNodeForDecl D (hasExternalLinkage D) ?s1)"
    using effect_inv [OF e1] by (rule addNodeForDecl_effect)
  have "snd (WalkUpFromDecl D s) = addNodeForDecl D (hasExternalLinkage D) ?s1"
    using True
    by (auto simp: WalkUpFromDecl_def VisitSubprogramDecl_def VisitObjCMethodDecl_def
        hasExternalLinkage_def)
  with effect_trans [OF e1 e2] True show ?thesis by (simp add: visitCalls_def)
next
  case False
  then have "snd (WalkUpFromDecl D s) = s"
    by (auto simp: WalkUpFromDecl_def VisitSubprogramDecl_def VisitObjCMethodDecl_def
        split: DeclKind.splits)
  with False inv show ?thesis by (auto simp: visitCalls_def effect_refl)
qed

lemma WalkUpFromDecl_continues: "fst (WalkUpFromDecl D s)"
  by (simp add: WalkUpFromDecl_def VisitSubprogramDecl_def VisitObjCMethodDecl_def
      split: DeclKind.splits)

lemma TraverseDecl_continues:
  "fst (TraverseDecl D s)"
  "fst (TraverseDeclContextHelper ds s)"
proof (induction D s and ds s rule: TraverseDecl_TraverseDeclContextHelper.induct)
  case (1 p k t g ds b s)
  obtain s1 where w: "WalkUpFromDecl (Decl p k t g ds b) s = (True, s1)"
    using WalkUpFromDecl_continues [of "Decl p k t g ds b" s]
    by (cases "WalkUpFromDecl (Decl p k t g ds b) s") auto
  from "1.IH" [OF w [symmetric]] have "fst (TraverseDeclContextHelper ds s1)" by simp
  then obtain s2 where c: "TraverseDeclContextHelper ds s1 = (True, s2)"
    by (cases "TraverseDeclContextHelper ds s1") auto
  show ?case by (simp add: w c TraverseStmt_def split: option.splits)
next
  case (2 s)
  show ?case by simp
next
  case (3 d ds s)
  from "3.IH"(1) obtain s1 where t: "TraverseDecl d s = (True, s1)"
    by (cases "TraverseDecl d s") auto
  from "3.IH"(2) [OF t [symmetric]] show ?case by (simp add: t)
qed

lemma TraverseDecl_unfold:
  "TraverseDecl (Decl p k t g ds b) s =
     (True, snd (TraverseDeclContextHelper ds (snd (WalkUpFromDecl (Decl p k t g ds b) s))))"
proof -
  obtain s1 where w: "WalkUpFromDecl (Decl p k t g ds b) s = (True, s1)"
    using WalkUpFromDecl_continues [of "Decl p k t g ds b" s]
    by (cases "WalkUpFromDecl (Decl p k t g ds b) s") auto
  obtain s2 where c: "TraverseDeclContextHelper ds s1 = (True, s2)"
    using TraverseDecl_continues(2) [of ds s1]
    by (cases "TraverseDeclContextHelper ds s1") auto
  show ?thesis by (simp add: w c TraverseStmt_def split: option.splits)
qed

lemma TraverseDeclContextHelper_unfold:
  "TraverseDeclContextHelper (d # ds) s =
     (True, snd (TraverseDeclContextHelper ds (snd (TraverseDecl d s))))"
proof -
  obtain s1 where t: "TraverseDecl d s = (True, s1)"
    using TraverseDecl_continues(1) [of d s] by (cases "TraverseDecl d s") auto
  obtain s2 where c: "TraverseDeclContextHelper ds s1 = (True, s2)"
    using TraverseDecl_continues(2) [of ds s1]
    by (cases "TraverseDeclContextHelper ds s1") auto
  show ?thesis by (simp add: t c)
qed

lemma TraverseDecl_addToCallGraph: "TraverseDecl D s = (True, addToCallGraph D s)"
  using TraverseDecl_continues(1) [of D s]
  by (cases "TraverseDecl D s") (simp add: addToCallGraph_def)

lemma traverse_effect:
  "graphInv s \<Longrightarrow> effect s (travCalls D) (snd (TraverseDecl D s))"
  "graphInv s \<Longrightarrow> effect s (travCallsL ds) (snd (TraverseDeclContextHelper ds s))"
proof (induction D and ds arbitrary: s and s rule: travCalls_travCallsL.induct)
  case (1 p k t g ds b)
  let ?D = "Decl p k t g ds b"
  have e1: "effect s (visitCalls ?D) (snd (WalkUpFromDecl ?D s))"
    using "1.prems" by (rule visit_effect)
  have e2: "effect (snd (WalkUpFromDecl ?D s)) (travCallsL ds)
              (snd (TraverseDeclContextHelper ds (snd (WalkUpFromDecl ?D s))))"
    using effect_inv [OF e1] by (rule "1.IH")
  from effect_trans [OF e1 e2] show ?case
    by (simp add: TraverseDecl_unfold del: TraverseDecl.simps)
next
  case 2
  then show ?case by (simp add: effect_refl)
next
  case (3 d ds)
  have e1: "effect s (travCalls d) (snd (TraverseDecl d s))"
    using "3.prems" by (rule "3.IH"(1))
  have e2: "effect (snd (TraverseDecl d s)) (travCallsL ds)
              (snd (TraverseDeclContextHelper ds (snd (TraverseDecl d s))))"
    using effect_inv [OF e1] by (rule "3.IH"(2))
  from effect_trans [OF e1 e2] show ?case
    by (simp add: TraverseDeclContextHelper_unfold del: TraverseDeclContextHelper.simps)
qed

lemma discovery_effect:
  "effect (CallGraph_ctor h0) (travCalls U) (addToCallGraph U (CallGraph_ctor h0))"
  unfolding addToCallGraph_def by (rule traverse_effect(1)) (rule CallGraph_ctor_inv)

lemma discovery_sets:
  "withNode (addToCallGraph U (CallGraph_ctor h0)) = fst ` set (travCalls U)"
  "withRootEdge (addToCallGraph U (CallGraph_ctor h0)) = {p. (p, True) \<in> set (travCalls U)}"
proof -
  have e: "effect (CallGraph_ctor h0) (travCalls U) (addToCallGraph U (CallGraph_ctor h0))"
    by (rule discovery_effect)
  have "withNode (CallGraph_ctor h0) = {}" by (simp add: withNode_def CallGraph_ctor_def)
  with e show "withNode (addToCallGraph U (CallGraph_ctor h0)) = fst ` set (travCalls U)"
    by (simp add: effect_def)
  have "withRootEdge (CallGraph_ctor h0) = {}"
    by (simp add: withRootEdge_def CallGraph_ctor_def getNode_def callees_def
        CallGraphNode_ctor_def)
  with e show "withRootEdge (addToCallGraph U (CallGraph_ctor h0))
                 = {p. (p, True) \<in> set (travCalls U)}"
    by (simp add: effect_def)
qed

section \<open>The end-to-end scenario\<close>

lemma exampleUnit_graph:
  "addToCallGraph exampleUnit (CallGraph_ctor []) =
     (\<lparr>SubprogramMap = [(Some 3, 1), (Some 1, 2), (Some 2, 3), (Some 5, 4)], Root = 0\<rparr>,
      [\<lparr>FD = None, CalledSubprograms = [1, 2, 4]\<rparr>,
       \<lparr>FD = Some 3, CalledSubprograms = []\<rparr>,
       \<lparr>FD = Some 1, CalledSubprograms = []\<rparr>,
       \<lparr>FD = Some 2, CalledSubprograms = []\<rparr>,
       \<lparr>FD = Some 5, CalledSubprograms = []\<rparr>])"
  by (simp add: exampleUnit_def exampleF_def exampleG_def exampleB_def exampleT_def
      exampleM_def addToCallGraph_def CallGraph_ctor_def WalkUpFromDecl_def
      VisitSubprogramDecl_def VisitObjCMethodDecl_def
      includeInGraph_def addNodesForBlocks_def hasExternalLinkage_def addNodeForDecl_def
      getOrInsertNode_def getNode_def allocateNewNode_def new_CallGraphNode_def callees_def
      CallGraphNode_ctor_def addCallee_def TraverseStmt_def)

lemma exampleUnit_wellFormed: "wellFormedUnit exampleUnit"
  by (simp add: wellFormedUnit_def exampleUnit_def exampleF_def exampleG_def exampleB_def
      exampleT_def exampleM_def)

lemma exampleUnit_reachability:
  "reachability False exampleUnit =
     [(exampleUnit, False), (exampleF, True), (exampleB, True), (exampleG, False),
      (exampleT, True), (exampleM, True)]"
  by (simp add: exampleUnit_def exampleF_def exampleG_def exampleB_def exampleT_def
      exampleM_def externallyReachable_def)

section \<open>Node identity\<close>

lemma getOrInsertNode_again:
  "getOrInsertNode D (snd (getOrInsertNode D s)) = getOrInsertNode D s"
proof (cases "getNode (fst s) (Some (declPtr D))")
  case (Some N)
  then show ?thesis by (simp add: getOrInsertNode_def)
next
  case None
  obtain CG h where s: "s = (CG, h)" by (cases s)
  from None s have none: "getNode CG (Some (declPtr D)) = None" by simp
  then have "getOrInsertNode D s =
     (length h, (CG\<lparr>SubprogramMap := SubprogramMap CG @ [(Some (declPtr D), length h)]\<rparr>,
                 h @ [CallGraphNode_ctor (Some (declPtr D))]))"
    by (simp add: s getOrInsertNode_fresh)
  moreover have "getNode (CG\<lparr>SubprogramMap := SubprogramMap CG @ [(Some (declPtr D), length h)]\<rparr>)
                   (Some (declPtr D)) = Some (length h)"
    by (simp add: getNode_append [OF none])
  ultimately show ?thesis by (simp add: getOrInsertNode_def)
qed

lemma getOrInsertNode_keys:
  assumes "distinct (map fst (SubprogramMap (fst s)))"
  shows "distinct (map fst (SubprogramMap (fst (snd (getOrInsertNode D s)))))"
proof (cases "getNode (fst s) (Some (declPtr D))")
  case (Some N)
  with assms show ?thesis by (simp add: getOrInsertNode_def)
next
  case None
  obtain CG h where s: "s = (CG, h)" by (cases s)
  from None s have "Some (declPtr D) \<notin> fst ` set (SubprogramMap CG)"
    by (simp add: getNode_None_iff)
  with assms None s show ?thesis by (simp add: getOrInsertNode_fresh)
qed

lemma getOrInsertNode_registers:
  "getNode (fst (snd (getOrInsertNode D s))) (Some (declPtr D)) = Some (fst (getOrInsertNode D s))"
proof (cases "getNode (fst s) (Some (declPtr D))")
  case (Some N)
  then show ?thesis by (simp add: getOrInsertNode_def)
next
  case None
  obtain CG h where s: "s = (CG, h)" by (cases s)
  from None s have none: "getNode CG (Some (declPtr D)) = None" by simp
  then show ?thesis by (simp add: s getOrInsertNode_fresh getNode_append)
qed

lemma distinct_keys_one_entry:
  "distinct (map fst xs) \<Longrightarrow> map_of xs k = Some v \<Longrightarrow> filter (\<lambda>e. fst e = k) xs = [(k, v)]"
proof (induction xs)
  case Nil
  then show ?case by simp
next
  case (Cons x xs)
  show ?case
  proof (cases "fst x = k")
    case True
    with Cons.prems have "x = (k, v)" by (cases x) simp
    moreover from True Cons.prems have "k \<notin> fst ` set xs" by auto
    then have "filter (\<lambda>e. fst e = k) xs = []"
      unfolding filter_empty_conv by (metis imageI)
    ultimately show ?thesis by simp
  next
    case False
    with Cons show ?thesis by (cases x) auto
  qed
qed

text \<open>
  C2. \<^verbatim>\<open>getOrInsertNode\<close> called a second time on the same declaration returns the node
  the first call returned and leaves the graph and the heap as the first call left them,
  so nothing is allocated. A map without duplicate declarations stays so, and holds
  exactly one entry for the declaration afterwards.
\<close>

theorem getOrInsertNode_twice:
  "getOrInsertNode D (snd (getOrInsertNode D s)) = getOrInsertNode D s
   \<and> length (snd (snd (getOrInsertNode D (snd (getOrInsertNode D s)))))
       = length (snd (snd (getOrInsertNode D s)))
   \<and> (distinct (map fst (SubprogramMap (fst s))) \<longrightarrow>
        distinct (map fst (SubprogramMap (fst (snd (getOrInsertNode D s)))))
        \<and> filter (\<lambda>e. fst e = Some (declPtr D))
             (SubprogramMap (fst (snd (getOrInsertNode D s))))
            = [(Some (declPtr D), fst (getOrInsertNode D s))])"
proof -
  have a: "getOrInsertNode D (snd (getOrInsertNode D s)) = getOrInsertNode D s"
    by (rule getOrInsertNode_again)
  have b: "distinct (map fst (SubprogramMap (fst s))) \<Longrightarrow>
        distinct (map fst (SubprogramMap (fst (snd (getOrInsertNode D s)))))"
    by (rule getOrInsertNode_keys)
  have c: "distinct (map fst (SubprogramMap (fst s))) \<Longrightarrow>
        filter (\<lambda>e. fst e = Some (declPtr D)) (SubprogramMap (fst (snd (getOrInsertNode D s))))
            = [(Some (declPtr D), fst (getOrInsertNode D s))]"
    using getOrInsertNode_registers [of D s]
    by (intro distinct_keys_one_entry b) (simp_all add: getNode_def)
  show ?thesis using a b c by simp
qed

theorem getOrInsertNode_twice_witness:
  "getOrInsertNode exampleF (CallGraph_ctor [])
     = (1, (\<lparr>SubprogramMap = [(Some 1, 1)], Root = 0\<rparr>,
            [CallGraphNode_ctor None, CallGraphNode_ctor (Some 1)]))
   \<and> getOrInsertNode exampleF
        (\<lparr>SubprogramMap = [(Some 1, 1)], Root = 0\<rparr>,
         [CallGraphNode_ctor None, CallGraphNode_ctor (Some 1)])
     = (1, (\<lparr>SubprogramMap = [(Some 1, 1)], Root = 0\<rparr>,
            [CallGraphNode_ctor None, CallGraphNode_ctor (Some 1)]))
   \<and> distinct (map fst (SubprogramMap (fst (CallGraph_ctor []))))"
  using getOrInsertNode_twice [of exampleF "CallGraph_ctor []"]
  by (simp add: getOrInsertNode_def getNode_def allocateNewNode_def new_CallGraphNode_def
      CallGraph_ctor_def exampleF_def)

section \<open>The size of a graph\<close>

lemma graphInv_size:
  assumes "graphInv (CG, h)"
  shows "distinct (nodes CG)"
    and "Root CG \<notin> set (nodes CG)"
    and "length (nodes CG) = length (SubprogramMap CG)"
    and "length (nodes CG) = card (graphNodes CG - {Root CG})"
    and "card (graphNodes CG) = length (nodes CG) + 1"
proof -
  have nodes: "nodes CG = map snd (SubprogramMap CG)"
    unfolding nodes_def by (rule map_cong) (simp_all add: CGdereference_def)
  from assms have dv: "distinct (map snd (SubprogramMap CG))"
    and bd: "\<forall>N \<in> set (map snd (SubprogramMap CG)). N < length h \<and> N \<noteq> Root CG"
    by (simp_all add: graphInv_def)
  show "length (nodes CG) = length (SubprogramMap CG)" by (simp add: nodes)
  from dv show dn: "distinct (nodes CG)" by (simp add: nodes)
  from bd show nr: "Root CG \<notin> set (nodes CG)" unfolding nodes by blast
  from dn have c: "card (set (nodes CG)) = length (nodes CG)" by (rule distinct_card)
  from nr have "graphNodes CG - {Root CG} = set (nodes CG)" by (auto simp: graphNodes_def)
  with c show "length (nodes CG) = card (graphNodes CG - {Root CG})" by simp
  from nr c show "card (graphNodes CG) = length (nodes CG) + 1"
    by (simp add: graphNodes_def)
qed

text \<open>
  C3. After discovery into a newly constructed graph whose map is representable,
  \<^verbatim>\<open>size()\<close> is the number of nodes of the graph without the root. The root is not
  among the nodes of the map, these are pairwise different, the graph has one node more
  than \<^verbatim>\<open>size()\<close>, and the heap has grown by the root and by \<^verbatim>\<open>size()\<close> nodes.
\<close>

theorem size_excludes_root:
  "representable (fst (addToCallGraph U (CallGraph_ctor h0))) \<Longrightarrow>
     CallGraph_size (fst (addToCallGraph U (CallGraph_ctor h0)))
       = card (graphNodes (fst (addToCallGraph U (CallGraph_ctor h0)))
               - {getRoot (fst (addToCallGraph U (CallGraph_ctor h0)))})
     \<and> CallGraph_size (fst (addToCallGraph U (CallGraph_ctor h0))) + 1
         = card (graphNodes (fst (addToCallGraph U (CallGraph_ctor h0))))
     \<and> getRoot (fst (addToCallGraph U (CallGraph_ctor h0)))
         \<notin> set (nodes (fst (addToCallGraph U (CallGraph_ctor h0))))
     \<and> distinct (nodes (fst (addToCallGraph U (CallGraph_ctor h0))))
     \<and> length (snd (addToCallGraph U (CallGraph_ctor h0)))
         = length h0 + 1 + CallGraph_size (fst (addToCallGraph U (CallGraph_ctor h0)))"
proof -
  assume fits: "representable (fst (addToCallGraph U (CallGraph_ctor h0)))"
  obtain CG h where s: "addToCallGraph U (CallGraph_ctor h0) = (CG, h)" by (metis surj_pair)
  have e: "effect (CallGraph_ctor h0) (travCalls U) (CG, h)"
    using discovery_effect [of h0 U] by (simp add: s)
  then have inv: "graphInv (CG, h)" by (rule effect_inv)
  note sz = graphInv_size [OF inv]
  from e have heap: "length h = length h0 + 1 + length (nodes CG)"
    by (simp add: effect_def CallGraph_ctor_def sz(3))
  from fits have size: "CallGraph_size CG = length (nodes CG)"
    by (simp add: s representable_def CallGraph_size_def sz(3))
  show ?thesis
    unfolding s fst_conv snd_conv getRoot_def size
    using sz(1,2,4,5) heap by simp
qed

theorem size_excludes_root_witness:
  "representable (fst (addToCallGraph exampleUnit (CallGraph_ctor [])))
   \<and> CallGraph_size (fst (addToCallGraph exampleUnit (CallGraph_ctor []))) = 4
   \<and> getRoot (fst (addToCallGraph exampleUnit (CallGraph_ctor []))) = 0
   \<and> graphNodes (fst (addToCallGraph exampleUnit (CallGraph_ctor []))) = {0, 1, 2, 3, 4}
   \<and> card (graphNodes (fst (addToCallGraph exampleUnit (CallGraph_ctor [])))
           - {getRoot (fst (addToCallGraph exampleUnit (CallGraph_ctor [])))}) = 4
   \<and> length (snd (addToCallGraph exampleUnit (CallGraph_ctor []))) = 5"
proof -
  have fits: "representable (fst (addToCallGraph exampleUnit (CallGraph_ctor [])))"
    by (simp add: exampleUnit_graph representable_def)
  have sz: "CallGraph_size (fst (addToCallGraph exampleUnit (CallGraph_ctor []))) = 4"
    by (simp add: exampleUnit_graph CallGraph_size_def)
  have r: "getRoot (fst (addToCallGraph exampleUnit (CallGraph_ctor []))) = 0"
    by (simp add: exampleUnit_graph getRoot_def)
  have g: "graphNodes (fst (addToCallGraph exampleUnit (CallGraph_ctor []))) = {0, 1, 2, 3, 4}"
    by (auto simp: exampleUnit_graph graphNodes_def nodes_def CGdereference_def)
  show ?thesis
    using size_excludes_root [OF fits] fits sz r g by simp
qed

section \<open>Statement bodies\<close>

lemma addNodeForDecl_ptr:
  "declPtr D = declPtr D' \<Longrightarrow> addNodeForDecl D r s = addNodeForDecl D' r s"
proof -
  assume eq: "declPtr D = declPtr D'"
  then have "allocateNewNode D s = allocateNewNode D' s" by (simp add: allocateNewNode_def)
  with eq have "getOrInsertNode D s = getOrInsertNode D' s"
    by (simp add: getOrInsertNode_def split: option.splits)
  then show ?thesis by (simp add: addNodeForDecl_def)
qed

lemma stripBodies_fields:
  "declPtr (stripBodies D) = declPtr D"
  "declKind (stripBodies D) = declKind D"
  "isTemplate (stripBodies D) = isTemplate D"
  "isGlobal (stripBodies D) = isGlobal D"
  "decls (stripBodies D) = stripBodiesL (decls D)"
  by (cases D; simp)+

lemma stripBodies_includeInGraph: "includeInGraph (stripBodies D) = includeInGraph D"
  by (simp add: includeInGraph_def stripBodies_fields)

lemma stripBodies_hasExternalLinkage: "hasExternalLinkage (stripBodies D) = hasExternalLinkage D"
  by (simp add: hasExternalLinkage_def stripBodies_fields split: DeclKind.splits)

lemma stripBodies_blocks:
  "addNodeForBlock encl (stripBodies d) s = addNodeForBlock encl d s"
  "addNodesForBlocksIn encl (stripBodiesL ds) s = addNodesForBlocksIn encl ds s"
proof (induction encl d s and encl ds s rule: addNodeForBlock_addNodesForBlocksIn.induct)
  case (1 encl p k t g ds b s)
  let ?D = "Decl p k t g ds b"
  let ?D' = "Decl p k t g (stripBodiesL ds) (case b of None \<Rightarrow> None | Some S \<Rightarrow> Some NullStmt)"
  have inc: "includeInGraph ?D' = includeInGraph ?D" by (simp add: includeInGraph_def)
  show ?case
  proof (cases "k = BlockDeclKind \<and> includeInGraph ?D")
    case True
    from "1.IH" [OF True]
    have "addNodesForBlocksIn encl (stripBodiesL ds) s = addNodesForBlocksIn encl ds s" .
    moreover have "\<And>s'. addNodeForDecl ?D' encl s' = addNodeForDecl ?D encl s'"
      by (rule addNodeForDecl_ptr) simp
    ultimately show ?thesis using True inc by simp
  next
    case False
    with inc show ?thesis by auto
  qed
next
  case (2 encl s)
  show ?case by simp
next
  case (3 encl d ds s)
  then show ?case by simp
qed

lemma stripBodies_WalkUpFromDecl: "WalkUpFromDecl (stripBodies D) s = WalkUpFromDecl D s"
proof -
  have "\<And>r s'. addNodeForDecl (stripBodies D) r s' = addNodeForDecl D r s'"
    by (rule addNodeForDecl_ptr) (simp add: stripBodies_fields)
  moreover have "addNodesForBlocks (stripBodies D) s = addNodesForBlocks D s"
    by (simp add: addNodesForBlocks_def stripBodies_hasExternalLinkage stripBodies_fields
        stripBodies_blocks)
  ultimately show ?thesis
    by (simp add: WalkUpFromDecl_def VisitSubprogramDecl_def VisitObjCMethodDecl_def
        stripBodies_includeInGraph stripBodies_fields split: DeclKind.splits)
qed

lemma stripBodies_traverse:
  "TraverseDecl (stripBodies D) s = TraverseDecl D s"
  "TraverseDeclContextHelper (stripBodiesL ds) s = TraverseDeclContextHelper ds s"
proof (induction D and ds arbitrary: s and s rule: stripBodies_stripBodiesL.induct)
  case (1 p k t g ds b)
  let ?D = "Decl p k t g ds b"
  have w: "WalkUpFromDecl (stripBodies ?D) s = WalkUpFromDecl ?D s"
    by (rule stripBodies_WalkUpFromDecl)
  have "TraverseDecl (stripBodies ?D) s =
          (True, snd (TraverseDeclContextHelper (stripBodiesL ds)
                       (snd (WalkUpFromDecl (stripBodies ?D) s))))"
    using TraverseDecl_unfold [of p k t g "stripBodiesL ds"] by simp
  also have "\<dots> = (True, snd (TraverseDeclContextHelper ds (snd (WalkUpFromDecl ?D s))))"
    by (simp only: w "1.IH")
  also have "\<dots> = TraverseDecl ?D s" by (simp only: TraverseDecl_unfold)
  finally show ?case .
next
  case 2
  show ?case by simp
next
  case (3 d ds)
  have "TraverseDeclContextHelper (stripBodiesL (d # ds)) s =
          (True, snd (TraverseDeclContextHelper (stripBodiesL ds)
                       (snd (TraverseDecl (stripBodies d) s))))"
    using TraverseDeclContextHelper_unfold [of "stripBodies d" "stripBodiesL ds" s] by simp
  also have "\<dots> = (True, snd (TraverseDeclContextHelper ds (snd (TraverseDecl d s))))"
    by (simp only: "3.IH")
  also have "\<dots> = TraverseDeclContextHelper (d # ds) s"
    by (simp only: TraverseDeclContextHelper_unfold)
  finally show ?case .
qed

text \<open>
  C6. Discovery does not walk statement bodies: \<^verbatim>\<open>TraverseStmt\<close> returns true and leaves
  the graph and the heap as they are, whatever the statement, so no node and no edge
  comes from a statement; and the graph that \<^verbatim>\<open>addToCallGraph\<close> builds is the one it
  builds from the same declarations with the statements of every body removed, so two
  units that differ in the statements of their bodies only give the same graph.
\<close>

theorem bodies_not_traversed:
  "TraverseStmt S s = (True, s)
   \<and> addToCallGraph (stripBodies D) s = addToCallGraph D s
   \<and> (stripBodies D = stripBodies D' \<longrightarrow> addToCallGraph D s = addToCallGraph D' s)"
proof -
  have a: "addToCallGraph (stripBodies D) s = addToCallGraph D s"
    by (simp add: addToCallGraph_def stripBodies_traverse)
  have "stripBodies D = stripBodies D' \<Longrightarrow> addToCallGraph D s = addToCallGraph D' s"
    by (metis addToCallGraph_def stripBodies_traverse(1))
  with a show ?thesis by (simp add: TraverseStmt_def)
qed

theorem bodies_not_traversed_witness:
  "stripBodies (Decl 1 SubprogramDeclKind False True [] (Some (CallExpr 2 [NullStmt])))
     = stripBodies (Decl 1 SubprogramDeclKind False True [] (Some (CompoundStmt [])))
   \<and> addToCallGraph (Decl 1 SubprogramDeclKind False True [] (Some (CallExpr 2 [NullStmt])))
        (CallGraph_ctor [])
     = addToCallGraph (Decl 1 SubprogramDeclKind False True [] (Some (CompoundStmt [])))
        (CallGraph_ctor [])"
  using bodies_not_traversed [of NullStmt "CallGraph_ctor []"
      "Decl 1 SubprogramDeclKind False True [] (Some (CallExpr 2 [NullStmt]))"
      "Decl 1 SubprogramDeclKind False True [] (Some (CompoundStmt []))"]
  by simp

section \<open>Root edges after discovery\<close>

lemma reachability_unfold:
  "reachability encl D =
     (D, externallyReachable encl D) # reachabilityL (externallyReachable encl D) (decls D)"
  by (cases D) simp

lemma reachability_decls:
  "map fst (reachability encl D) = subdecls D"
  "map fst (reachabilityL encl ds) = subdeclsL ds"
  by (induction encl D and encl ds rule: reachability_reachabilityL.induct) simp_all

lemma blockCalls_reachability:
  "(q, r) \<in> set (blockCalls encl D) \<Longrightarrow>
     \<exists>D'. (D', r) \<in> set (reachability encl D) \<and> declPtr D' = q \<and> includeInGraph D'"
  "(q, r) \<in> set (blockCallsL encl ds) \<Longrightarrow>
     \<exists>D'. (D', r) \<in> set (reachabilityL encl ds) \<and> declPtr D' = q \<and> includeInGraph D'"
proof (induction encl D and encl ds rule: blockCalls_blockCallsL.induct)
  case (1 encl p k t g ds b)
  let ?D = "Decl p k t g ds b"
  from "1.prems" have blk: "k = BlockDeclKind \<and> includeInGraph ?D"
    by (auto split: if_splits)
  then have er: "externallyReachable encl ?D = encl" by (simp add: externallyReachable_def)
  from "1.prems" blk have "(q, r) \<in> set (blockCallsL encl ds) \<or> (q, r) = (p, encl)" by auto
  then show ?case
  proof
    assume "(q, r) \<in> set (blockCallsL encl ds)"
    from "1.IH" [OF blk this] obtain D' where
      "(D', r) \<in> set (reachabilityL encl ds)" "declPtr D' = q" "includeInGraph D'" by blast
    then show ?thesis using er by auto
  next
    assume "(q, r) = (p, encl)"
    then have "(?D, r) \<in> set (reachability encl ?D)" "declPtr ?D = q"
      using er by simp_all
    with blk show ?thesis by blast
  qed
next
  case (2 encl)
  then show ?case by simp
next
  case (3 encl d ds)
  from "3.prems" have "(q, r) \<in> set (blockCalls encl d) \<or> (q, r) \<in> set (blockCallsL encl ds)"
    by auto
  then show ?case using "3.IH" by auto
qed

lemma visitCalls_reachability:
  assumes "(q, r) \<in> set (visitCalls D)"
  shows "\<exists>D'. (D', r) \<in> set (reachability encl D) \<and> declPtr D' = q \<and> includeInGraph D'"
proof -
  from assms have vis: "(declKind D = SubprogramDeclKind \<or> declKind D = ObjCMethodDeclKind)"
    and inc: "includeInGraph D"
    by (auto simp: visitCalls_def split: if_splits)
  from vis have er: "externallyReachable encl D = hasExternalLinkage D"
    by (auto simp: externallyReachable_def hasExternalLinkage_def)
  from assms vis inc
  have "(q, r) \<in> set (blockCallsL (hasExternalLinkage D) (decls D))
        \<or> (q, r) = (declPtr D, hasExternalLinkage D)"
    by (auto simp: visitCalls_def)
  then show ?thesis
  proof
    assume "(q, r) \<in> set (blockCallsL (hasExternalLinkage D) (decls D))"
    from blockCalls_reachability(2) [OF this] obtain D' where
      "(D', r) \<in> set (reachabilityL (hasExternalLinkage D) (decls D))"
      "declPtr D' = q" "includeInGraph D'" by blast
    then show ?thesis using er by (subst reachability_unfold) auto
  next
    assume "(q, r) = (declPtr D, hasExternalLinkage D)"
    then have "(D, r) \<in> set (reachability encl D)" "declPtr D = q"
      using er by (simp_all add: reachability_unfold)
    with inc show ?thesis by blast
  qed
qed

lemma travCalls_reachability:
  "(q, r) \<in> set (travCalls D) \<Longrightarrow>
     \<exists>D'. (D', r) \<in> set (reachability encl D) \<and> declPtr D' = q \<and> includeInGraph D'"
  "(q, r) \<in> set (travCallsL ds) \<Longrightarrow>
     \<exists>D'. (D', r) \<in> set (reachabilityL encl ds) \<and> declPtr D' = q \<and> includeInGraph D'"
proof (induction D and ds arbitrary: encl and encl rule: travCalls_travCallsL.induct)
  case (1 p k t g ds b)
  let ?D = "Decl p k t g ds b"
  from "1.prems" have "(q, r) \<in> set (visitCalls ?D) \<or> (q, r) \<in> set (travCallsL ds)" by auto
  then show ?case
  proof
    assume "(q, r) \<in> set (visitCalls ?D)"
    then show ?thesis by (rule visitCalls_reachability)
  next
    assume "(q, r) \<in> set (travCallsL ds)"
    from "1.IH" [OF this, of "externallyReachable encl ?D"] show ?thesis by auto
  qed
next
  case 2
  then show ?case by simp
next
  case (3 d ds)
  from "3.prems" have "(q, r) \<in> set (travCalls d) \<or> (q, r) \<in> set (travCallsL ds)" by auto
  then show ?case using "3.IH" [of encl] by auto
qed

lemma travCalls_visited:
  "D' \<in> set (subdecls D) \<Longrightarrow>
   declKind D' = SubprogramDeclKind \<or> declKind D' = ObjCMethodDeclKind \<Longrightarrow>
   includeInGraph D' \<Longrightarrow> (declPtr D', hasExternalLinkage D') \<in> set (travCalls D)"
  "D' \<in> set (subdeclsL ds) \<Longrightarrow>
   declKind D' = SubprogramDeclKind \<or> declKind D' = ObjCMethodDeclKind \<Longrightarrow>
   includeInGraph D' \<Longrightarrow> (declPtr D', hasExternalLinkage D') \<in> set (travCallsL ds)"
proof (induction D and ds rule: travCalls_travCallsL.induct)
  case (1 p k t g ds b)
  let ?D = "Decl p k t g ds b"
  from "1.prems"(1) have "D' = ?D \<or> D' \<in> set (subdeclsL ds)" by auto
  then show ?case
  proof
    assume "D' = ?D"
    with "1.prems" have "(declPtr D', hasExternalLinkage D') \<in> set (visitCalls ?D)"
      by (auto simp: visitCalls_def)
    then show ?thesis by simp
  next
    assume "D' \<in> set (subdeclsL ds)"
    from "1.IH" [OF this "1.prems"(2,3)] show ?thesis by simp
  qed
next
  case 2
  then show ?case by simp
next
  case (3 d ds)
  from "3.prems"(1) have "D' \<in> set (subdecls d) \<or> D' \<in> set (subdeclsL ds)" by auto
  then show ?case using "3.IH" "3.prems"(2,3) by auto
qed

lemma wellFormedUnit_same:
  assumes wf: "wellFormedUnit U"
    and a: "(D, r) \<in> set (reachability encl U)"
    and b: "(D', r') \<in> set (reachability encl U)"
    and eq: "declPtr D = declPtr D'"
  shows "D = D' \<and> r = r'"
proof -
  have "map (declPtr \<circ> fst) (reachability encl U) = map declPtr (subdecls U)"
    using reachability_decls(1) [of encl U] by (metis map_map)
  with wf have "distinct (map (declPtr \<circ> fst) (reachability encl U))"
    by (simp add: wellFormedUnit_def)
  then have "inj_on (declPtr \<circ> fst) (set (reachability encl U))"
    by (simp add: distinct_map)
  from inj_onD [OF this _ a b] eq have "(D, r) = (D', r')" by simp
  then show ?thesis by simp
qed

lemma reachability_subdecls:
  "(D, r) \<in> set (reachability encl U) \<Longrightarrow> D \<in> set (subdecls U)"
  by (metis reachability_decls(1) image_eqI fst_conv set_map)

lemma subdecls_reachability:
  "D \<in> set (subdecls U) \<Longrightarrow> \<exists>r. (D, r) \<in> set (reachability encl U)"
proof -
  assume "D \<in> set (subdecls U)"
  then have "D \<in> fst ` set (reachability encl U)"
    using reachability_decls(1) [of encl U] by (metis set_map)
  then show ?thesis by force
qed

lemma visitCalls_travCalls:
  "D' \<in> set (subdecls D) \<Longrightarrow> set (visitCalls D') \<subseteq> set (travCalls D)"
  "D' \<in> set (subdeclsL ds) \<Longrightarrow> set (visitCalls D') \<subseteq> set (travCallsL ds)"
proof (induction D and ds rule: travCalls_travCallsL.induct)
  case (1 p k t g ds b)
  from "1.prems" have "D' = Decl p k t g ds b \<or> D' \<in> set (subdeclsL ds)" by auto
  then show ?case using "1.IH" by auto
next
  case 2
  then show ?case by simp
next
  case (3 d ds)
  from "3.prems" have "D' \<in> set (subdecls d) \<or> D' \<in> set (subdeclsL ds)" by auto
  then show ?case using "3.IH" by auto
qed

lemma blockCallsL_child:
  "B \<in> set ds \<Longrightarrow> declKind B = BlockDeclKind \<Longrightarrow> includeInGraph B \<Longrightarrow>
   (declPtr B, encl) \<in> set (blockCallsL encl ds)"
proof (induction ds)
  case Nil
  then show ?case by simp
next
  case (Cons d ds)
  show ?case
  proof (cases "B = d")
    case True
    with Cons.prems have "(declPtr B, encl) \<in> set (blockCalls encl d)" by (cases d) auto
    then show ?thesis by simp
  next
    case False
    with Cons show ?thesis by simp
  qed
qed

lemma nestedBlock_requested:
  assumes "P \<in> set (subdecls U)"
    and "declKind P = SubprogramDeclKind \<or> declKind P = ObjCMethodDeclKind"
    and "includeInGraph P" and "B \<in> set (decls P)"
    and "declKind B = BlockDeclKind" and "includeInGraph B"
  shows "(declPtr B, hasExternalLinkage P) \<in> set (travCalls U)"
proof -
  from assms(4-6)
  have "(declPtr B, hasExternalLinkage P) \<in> set (blockCallsL (hasExternalLinkage P) (decls P))"
    by (rule blockCallsL_child)
  with assms(2,3) have "(declPtr B, hasExternalLinkage P) \<in> set (visitCalls P)"
    by (simp add: visitCalls_def)
  with visitCalls_travCalls(1) [OF assms(1)] show ?thesis by blast
qed

text \<open>
  C1. After discovery over a well-formed unit into a newly constructed graph, for every
  declaration of the unit: when it is externally reachable and has a node, the root's
  callee list contains that node; when it is eligible, not externally reachable and not
  a block, it has a node and the root's callee list does not contain it. Discovery does
  give the nodes: every eligible subprogram and method of the unit has a node, and so
  has every eligible block declared in one of them, a block being externally reachable
  exactly when the declaration that owns it has external linkage; for each of these the
  root's callee list contains the node exactly when the declaration is externally
  reachable.
\<close>

theorem discovery_root_edges:
  assumes wf: "wellFormedUnit U"
    and occ: "(D, r) \<in> set (reachability False U)"
  shows "(r \<longrightarrow>
           (\<forall>N. getNode (fst (addToCallGraph U (CallGraph_ctor h0))) (Some (declPtr D)) = Some N
                \<longrightarrow> N \<in> set (callees (snd (addToCallGraph U (CallGraph_ctor h0)))
                               (getRoot (fst (addToCallGraph U (CallGraph_ctor h0)))))))
       \<and> (includeInGraph D \<and> \<not> r \<and> declKind D \<noteq> BlockDeclKind \<longrightarrow>
           (\<exists>N. getNode (fst (addToCallGraph U (CallGraph_ctor h0))) (Some (declPtr D)) = Some N)
           \<and> (\<forall>N. getNode (fst (addToCallGraph U (CallGraph_ctor h0))) (Some (declPtr D)) = Some N
                \<longrightarrow> N \<notin> set (callees (snd (addToCallGraph U (CallGraph_ctor h0)))
                               (getRoot (fst (addToCallGraph U (CallGraph_ctor h0)))))))
       \<and> (includeInGraph D \<and> declKind D \<noteq> BlockDeclKind \<longrightarrow>
           (\<exists>N. getNode (fst (addToCallGraph U (CallGraph_ctor h0))) (Some (declPtr D)) = Some N
                \<and> (N \<in> set (callees (snd (addToCallGraph U (CallGraph_ctor h0)))
                               (getRoot (fst (addToCallGraph U (CallGraph_ctor h0)))))
                     \<longleftrightarrow> r)))
       \<and> (P \<in> set (subdecls U) \<and> includeInGraph P
            \<and> (declKind P = SubprogramDeclKind \<or> declKind P = ObjCMethodDeclKind)
            \<and> D \<in> set (decls P) \<and> declKind D = BlockDeclKind \<and> includeInGraph D \<longrightarrow>
           r = hasExternalLinkage P
           \<and> (\<exists>N. getNode (fst (addToCallGraph U (CallGraph_ctor h0))) (Some (declPtr D)) = Some N
                \<and> (N \<in> set (callees (snd (addToCallGraph U (CallGraph_ctor h0)))
                               (getRoot (fst (addToCallGraph U (CallGraph_ctor h0)))))
                     \<longleftrightarrow> r)))"
proof -
  define s where "s = addToCallGraph U (CallGraph_ctor h0)"
  let ?p = "declPtr D"
  have wn: "withNode s = fst ` set (travCalls U)"
    and we: "withRootEdge s = {p. (p, True) \<in> set (travCalls U)}"
    unfolding s_def by (rule discovery_sets)+
  have flag: "r' = r" if "(?p, r') \<in> set (travCalls U)" for r'
  proof -
    from travCalls_reachability(1) [OF that, of False] obtain D' where
      "(D', r') \<in> set (reachability False U)" "declPtr D' = ?p" by blast
    with wellFormedUnit_same [OF wf occ, of D' r'] show ?thesis by simp
  qed
  have edge_iff: "N \<in> set (callees (snd s) (Root (fst s))) \<longleftrightarrow> r"
    if look: "getNode (fst s) (Some ?p) = Some N" for N
  proof
    assume "N \<in> set (callees (snd s) (Root (fst s)))"
    with look have "?p \<in> withRootEdge s" by (auto simp: withRootEdge_def)
    then have "(?p, True) \<in> set (travCalls U)" by (simp add: we)
    from flag [OF this] show r by simp
  next
    assume r
    from look have "?p \<in> withNode s" by (simp add: withNode_iff)
    then obtain r' where c: "(?p, r') \<in> set (travCalls U)" by (auto simp: wn)
    from flag [OF c] \<open>r\<close> c have "(?p, True) \<in> set (travCalls U)" by simp
    then have "?p \<in> withRootEdge s" by (simp add: we)
    then show "N \<in> set (callees (snd s) (Root (fst s)))"
      using look by (auto simp: withRootEdge_def)
  qed
  have requested: "\<exists>N. getNode (fst s) (Some ?p) = Some N
                       \<and> (N \<in> set (callees (snd s) (Root (fst s))) \<longleftrightarrow> r)"
    if "(?p, r') \<in> set (travCalls U)" for r'
  proof -
    from that have "?p \<in> withNode s" by (force simp: wn)
    then obtain N where "getNode (fst s) (Some ?p) = Some N" by (auto simp: withNode_iff)
    with edge_iff [OF this] show ?thesis by blast
  qed
  have node: "\<exists>N. getNode (fst s) (Some ?p) = Some N
                  \<and> (N \<in> set (callees (snd s) (Root (fst s))) \<longleftrightarrow> r)"
    if inc: "includeInGraph D" and nb: "declKind D \<noteq> BlockDeclKind"
  proof -
    from inc nb have k: "declKind D = SubprogramDeclKind \<or> declKind D = ObjCMethodDeclKind"
      by (cases "declKind D") (simp_all add: includeInGraph_def)
    from occ have "D \<in> set (subdecls U)" by (rule reachability_subdecls)
    from travCalls_visited(1) [OF this k inc] show ?thesis by (rule requested)
  qed
  have block: "r = hasExternalLinkage P
               \<and> (\<exists>N. getNode (fst s) (Some ?p) = Some N
                     \<and> (N \<in> set (callees (snd s) (Root (fst s))) \<longleftrightarrow> r))"
    if "P \<in> set (subdecls U)" "includeInGraph P"
      "declKind P = SubprogramDeclKind \<or> declKind P = ObjCMethodDeclKind"
      "D \<in> set (decls P)" "declKind D = BlockDeclKind" "includeInGraph D"
  proof -
    from nestedBlock_requested [OF that(1,3,2,4,5,6)]
    have c: "(?p, hasExternalLinkage P) \<in> set (travCalls U)" .
    from flag [OF c] requested [OF c] show ?thesis by simp
  qed
  show ?thesis
    unfolding s_def [symmetric] getRoot_def using edge_iff node block by blast
qed

theorem discovery_root_edges_witness:
  "wellFormedUnit exampleUnit
   \<and> (exampleF, True) \<in> set (reachability False exampleUnit)
   \<and> (exampleM, True) \<in> set (reachability False exampleUnit)
   \<and> (exampleB, True) \<in> set (reachability False exampleUnit)
   \<and> (exampleG, False) \<in> set (reachability False exampleUnit)
   \<and> includeInGraph exampleF \<and> declKind exampleF \<noteq> BlockDeclKind
   \<and> includeInGraph exampleM \<and> declKind exampleM \<noteq> BlockDeclKind
   \<and> includeInGraph exampleG \<and> declKind exampleG \<noteq> BlockDeclKind
   \<and> exampleF \<in> set (subdecls exampleUnit) \<and> exampleB \<in> set (decls exampleF)
   \<and> includeInGraph exampleB \<and> declKind exampleB = BlockDeclKind
   \<and> hasExternalLinkage exampleF
   \<and> getNode (fst (addToCallGraph exampleUnit (CallGraph_ctor []))) (Some (declPtr exampleF)) = Some 2
   \<and> getNode (fst (addToCallGraph exampleUnit (CallGraph_ctor []))) (Some (declPtr exampleM)) = Some 4
   \<and> getNode (fst (addToCallGraph exampleUnit (CallGraph_ctor []))) (Some (declPtr exampleB)) = Some 1
   \<and> getNode (fst (addToCallGraph exampleUnit (CallGraph_ctor []))) (Some (declPtr exampleG)) = Some 3
   \<and> 2 \<in> set (callees (snd (addToCallGraph exampleUnit (CallGraph_ctor [])))
                (getRoot (fst (addToCallGraph exampleUnit (CallGraph_ctor [])))))
   \<and> 4 \<in> set (callees (snd (addToCallGraph exampleUnit (CallGraph_ctor [])))
                (getRoot (fst (addToCallGraph exampleUnit (CallGraph_ctor [])))))
   \<and> 1 \<in> set (callees (snd (addToCallGraph exampleUnit (CallGraph_ctor [])))
                (getRoot (fst (addToCallGraph exampleUnit (CallGraph_ctor [])))))
   \<and> 3 \<notin> set (callees (snd (addToCallGraph exampleUnit (CallGraph_ctor [])))
                (getRoot (fst (addToCallGraph exampleUnit (CallGraph_ctor [])))))"
proof -
  have f: "(exampleF, True) \<in> set (reachability False exampleUnit)"
    and m: "(exampleM, True) \<in> set (reachability False exampleUnit)"
    and b: "(exampleB, True) \<in> set (reachability False exampleUnit)"
    and g: "(exampleG, False) \<in> set (reachability False exampleUnit)"
    by (simp_all add: exampleUnit_reachability)
  have elig: "includeInGraph exampleF \<and> declKind exampleF \<noteq> BlockDeclKind"
    "includeInGraph exampleM \<and> declKind exampleM \<noteq> BlockDeclKind"
    "includeInGraph exampleG \<and> declKind exampleG \<noteq> BlockDeclKind"
    "includeInGraph exampleB \<and> declKind exampleB = BlockDeclKind"
    by (simp_all add: exampleF_def exampleM_def exampleG_def exampleB_def includeInGraph_def)
  have own: "exampleF \<in> set (subdecls exampleUnit) \<and> exampleB \<in> set (decls exampleF)"
    "hasExternalLinkage exampleF" "declKind exampleF = SubprogramDeclKind"
    by (simp_all add: exampleUnit_def exampleF_def hasExternalLinkage_def)
  have look:
    "getNode (fst (addToCallGraph exampleUnit (CallGraph_ctor []))) (Some (declPtr exampleF)) = Some 2"
    "getNode (fst (addToCallGraph exampleUnit (CallGraph_ctor []))) (Some (declPtr exampleM)) = Some 4"
    "getNode (fst (addToCallGraph exampleUnit (CallGraph_ctor []))) (Some (declPtr exampleB)) = Some 1"
    "getNode (fst (addToCallGraph exampleUnit (CallGraph_ctor []))) (Some (declPtr exampleG)) = Some 3"
    by (simp_all add: exampleUnit_graph getNode_def exampleF_def exampleM_def exampleB_def
        exampleG_def)
  show ?thesis
    using discovery_root_edges [OF exampleUnit_wellFormed f, of "[]" exampleF]
      discovery_root_edges [OF exampleUnit_wellFormed m, of "[]" exampleF]
      discovery_root_edges [OF exampleUnit_wellFormed b, of "[]" exampleF]
      discovery_root_edges [OF exampleUnit_wellFormed g, of "[]" exampleF]
      exampleUnit_wellFormed f m b g elig own look
    by simp
qed

section \<open>Discovery never fails\<close>

lemma ineligible_skipped:
  assumes "\<not> includeInGraph D"
  shows "WalkUpFromDecl D s = (True, s)" and "VisitSubprogramDecl D s = (True, s)"
    and "VisitObjCMethodDecl D s = (True, s)" and "addNodeForBlock encl D s = s"
proof -
  show "VisitSubprogramDecl D s = (True, s)" "VisitObjCMethodDecl D s = (True, s)"
    using assms by (simp_all add: VisitSubprogramDecl_def VisitObjCMethodDecl_def)
  then show "WalkUpFromDecl D s = (True, s)"
    by (simp add: WalkUpFromDecl_def split: DeclKind.splits)
  show "addNodeForBlock encl D s = s" using assms by (cases D) simp
qed

lemma ineligible_no_node:
  assumes wf: "wellFormedUnit U" and mem: "D \<in> set (subdecls U)"
    and inel: "\<not> includeInGraph D"
  shows "getNode (fst (addToCallGraph U (CallGraph_ctor h0))) (Some (declPtr D)) = None"
proof (rule ccontr)
  assume "getNode (fst (addToCallGraph U (CallGraph_ctor h0))) (Some (declPtr D)) \<noteq> None"
  then have "declPtr D \<in> withNode (addToCallGraph U (CallGraph_ctor h0))"
    by (simp add: withNode_iff)
  then obtain r' where "(declPtr D, r') \<in> set (travCalls U)"
    by (auto simp: discovery_sets(1))
  from travCalls_reachability(1) [OF this, of False] obtain D' where
    D': "(D', r') \<in> set (reachability False U)" "declPtr D' = declPtr D" "includeInGraph D'"
    by blast
  from subdecls_reachability [OF mem, of False] obtain r where
    "(D, r) \<in> set (reachability False U)" by blast
  from wellFormedUnit_same [OF wf this D'(1)] D'(2) have "D = D'" by simp
  with D'(3) inel show False by simp
qed

text \<open>
  C7. Discovery never fails: the walk over a declaration and over a list of declarations
  returns true from every graph, and after any declaration the walk goes on with the
  declarations that remain. A declaration that \<^verbatim>\<open>includeInGraph\<close> rejects is skipped:
  visiting it returns true and changes nothing, and after discovery over a well-formed
  unit into a newly constructed graph it has no node.
\<close>

theorem discovery_never_fails:
  "fst (TraverseDecl D s)
   \<and> fst (TraverseDeclContextHelper ds s)
   \<and> TraverseDeclContextHelper (D # ds) s = TraverseDeclContextHelper ds (addToCallGraph D s)
   \<and> (\<not> includeInGraph D \<longrightarrow>
        WalkUpFromDecl D s = (True, s) \<and> VisitSubprogramDecl D s = (True, s)
        \<and> VisitObjCMethodDecl D s = (True, s) \<and> addNodeForBlock encl D s = s)
   \<and> (wellFormedUnit U \<and> D \<in> set (subdecls U) \<and> \<not> includeInGraph D \<longrightarrow>
        getNode (fst (addToCallGraph U (CallGraph_ctor h0))) (Some (declPtr D)) = None)"
proof -
  have a: "TraverseDeclContextHelper (D # ds) s
             = TraverseDeclContextHelper ds (addToCallGraph D s)"
    by (simp add: TraverseDecl_addToCallGraph)
  show ?thesis
    using a TraverseDecl_continues(1) [of D s] TraverseDecl_continues(2) [of ds s]
      ineligible_skipped(1-3) [of D s] ineligible_skipped(4) [of D encl s]
      ineligible_no_node [of U D h0]
    by blast
qed

theorem discovery_never_fails_witness:
  "\<not> includeInGraph exampleT
   \<and> wellFormedUnit exampleUnit
   \<and> exampleT \<in> set (subdecls exampleUnit)
   \<and> getNode (fst (addToCallGraph exampleUnit (CallGraph_ctor []))) (Some (declPtr exampleT)) = None
   \<and> TraverseDecl exampleUnit (CallGraph_ctor [])
       = (True, addToCallGraph exampleUnit (CallGraph_ctor []))
   \<and> VisitSubprogramDecl exampleT (CallGraph_ctor []) = (True, CallGraph_ctor [])"
proof -
  have inel: "\<not> includeInGraph exampleT" by (simp add: exampleT_def includeInGraph_def)
  have mem: "exampleT \<in> set (subdecls exampleUnit)"
    by (simp add: exampleUnit_def exampleF_def exampleG_def exampleB_def exampleT_def
        exampleM_def)
  have "fst (TraverseDecl exampleUnit (CallGraph_ctor []))"
    using discovery_never_fails [of exampleUnit "CallGraph_ctor []"] by simp
  then have t: "TraverseDecl exampleUnit (CallGraph_ctor [])
       = (True, addToCallGraph exampleUnit (CallGraph_ctor []))"
    by (cases "TraverseDecl exampleUnit (CallGraph_ctor [])") (simp add: addToCallGraph_def)
  show ?thesis
    using discovery_never_fails [of exampleT "CallGraph_ctor []" "[]" False exampleUnit "[]"]
      inel mem exampleUnit_wellFormed t
    by simp
qed

section \<open>Nodes outside a graph\<close>

text \<open>
  C9 as stated fails. The constructor of \<^verbatim>\<open>CallGraphNode\<close> is public: a client's
  \<^verbatim>\<open>new CallGraphNode(D)\<close> beside a newly constructed graph yields a node that is neither
  the root nor a node of the graph's map, for a declaration that the graph has no node
  for, and \<^verbatim>\<open>addCallee\<close> on the root takes it as a target.
\<close>

theorem node_outside_graph_counterexample:
  "new_CallGraphNode (Some 7) [CallGraphNode_ctor None]
       = (1, [CallGraphNode_ctor None, CallGraphNode_ctor (Some 7)])
   \<and> \<not> registered \<lparr>SubprogramMap = [], Root = 0\<rparr> 1
   \<and> getNode \<lparr>SubprogramMap = [], Root = 0\<rparr> (Some 7) = None
   \<and> callees (snd (addCallee 0 1 \<lparr>SubprogramMap = [], Root = 0\<rparr>
                     [CallGraphNode_ctor None, CallGraphNode_ctor (Some 7)])) 0 = [1]"
  by (simp add: new_CallGraphNode_def registered_def addCallee_def callees_def
      CallGraphNode_ctor_def getNode_def)

text \<open>
  C9, amended. Node handles can be constructed outside a graph: the public constructor
  yields an allocated node with the given declaration that is neither the root nor a
  node of the map of any graph whose own nodes are allocated, and \<^verbatim>\<open>addCallee\<close> appends
  any target, whether it belongs to the graph or not.
\<close>

theorem public_constructor_outside_graph:
  "(nodesAllocated CG h \<longrightarrow>
      fst (new_CallGraphNode D h) < length (snd (new_CallGraphNode D h))
      \<and> getDecl (snd (new_CallGraphNode D h)) (fst (new_CallGraphNode D h)) = D
      \<and> \<not> registered CG (fst (new_CallGraphNode D h)))
   \<and> (this < length h \<longrightarrow>
        callees (snd (addCallee this N CG h)) this = callees h this @ [N])"
proof -
  have c: "nodesAllocated CG h \<Longrightarrow> \<not> registered CG (fst (new_CallGraphNode D h))"
    by (auto simp: nodesAllocated_def registered_def new_CallGraphNode_def list_all_iff)
  have d: "fst (new_CallGraphNode D h) < length (snd (new_CallGraphNode D h))"
    "getDecl (snd (new_CallGraphNode D h)) (fst (new_CallGraphNode D h)) = D"
    by (simp_all add: new_CallGraphNode_def getDecl_def CallGraphNode_ctor_def)
  show ?thesis using c d addCallee_callees [of this h N CG] by blast
qed

theorem public_constructor_outside_graph_witness:
  "nodesAllocated \<lparr>SubprogramMap = [], Root = 0\<rparr> [CallGraphNode_ctor None]
   \<and> \<not> registered \<lparr>SubprogramMap = [], Root = 0\<rparr>
         (fst (new_CallGraphNode (Some 7) [CallGraphNode_ctor None]))
   \<and> (0::nat) < length [CallGraphNode_ctor None]
   \<and> callees (snd (addCallee 0 5 \<lparr>SubprogramMap = [], Root = 0\<rparr>
                     [CallGraphNode_ctor None])) 0 = [5]"
proof -
  have al: "nodesAllocated \<lparr>SubprogramMap = [], Root = 0\<rparr> [CallGraphNode_ctor None]"
    by (simp add: nodesAllocated_def)
  have c0: "callees [CallGraphNode_ctor None] 0 = []"
    by (simp add: callees_def CallGraphNode_ctor_def)
  show ?thesis
    using public_constructor_outside_graph [where CG = "\<lparr>SubprogramMap = [], Root = 0\<rparr>"
        and h = "[CallGraphNode_ctor None]" and D = "Some 7" and this = 0 and N = 5]
      al c0
    by simp
qed

end
